theory Spec2Isabelle
  imports Complex_Main
begin

section \<open>Tensors, errors and the DeepPoly linear relation\<close>

text \<open>
  The model describes one element of the leading batch axis: every tensor operation of
  \<^verbatim>\<open>AIDomains/deeppoly.py\<close> acts on the batch elements independently. The axes of the
  reference tensor (features, or channel, height and width) are flattened in row-major
  order, so a coefficient tensor of shape (batch, targets, *reference) is a list of rows,
  one row per target expression, and a bias tensor of shape (batch, targets) is a list.
  Tensor entries are read as real numbers. Of the float32 arithmetic of torch the model
  keeps what the ReLU relaxation depends on: the rounding of the guarded denominator
  \<^verbatim>\<open>x_ub - x_lb + 1e-15\<close>, and the inf or nan that a division by zero writes there;
  every other operation is exact, and overflow is not modelled. Elementwise operations on
  tensors whose shapes differ make torch raise; the list operations below are used on equal
  lengths only.
\<close>

type_synonym vec = "real list"
type_synonym mat = "real list list"

datatype py_error =
  NameError | RuntimeError | NotImplementedError | AssertionError | TypeError | IndexError
  | KeyError | ZeroDivisionError | AttributeError

record DeepPoly =
  x_l_coef :: mat
  x_u_coef :: mat
  x_l_bias :: vec
  x_u_bias :: vec

subsection \<open>The constructor\<close>

text \<open>
  \<^verbatim>\<open>DeepPoly.__init__\<close> sets attributes on a fresh object. The object is its attribute
  dictionary; \<open>Scalar0\<close> is the zero-dimensional \<^verbatim>\<open>torch.tensor(0)\<close>. The assertion of the
  constructor tests the type of \<^verbatim>\<open>expr_coef\<close>, which the argument types settle, so no
  branch raises.
\<close>

datatype attr_name = A_device | A_x_l_coef | A_x_u_coef | A_x_l_bias | A_x_u_bias

datatype attr_value = Device | Coef mat | BiasT vec | Scalar0

definition DeepPoly_init ::
  "mat option \<Rightarrow> mat option \<Rightarrow> vec option \<Rightarrow> vec option \<Rightarrow> mat option
     \<Rightarrow> py_error + (attr_name \<rightharpoonup> attr_value)" where
  "DeepPoly_init xl xu bl bu expr_coef =
     (if expr_coef = None \<and> (xl = None \<or> xu = None) then Inr Map.empty
      else Inr [A_device \<mapsto> Device,
                A_x_l_coef \<mapsto> Coef (case xl of None \<Rightarrow> the expr_coef | Some c \<Rightarrow> c),
                A_x_u_coef \<mapsto> Coef (case xu of None \<Rightarrow> the expr_coef | Some c \<Rightarrow> c),
                A_x_l_bias \<mapsto> (case bl of None \<Rightarrow> Scalar0 | Some b \<Rightarrow> BiasT b),
                A_x_u_bias \<mapsto> (case bu of None \<Rightarrow> Scalar0 | Some b \<Rightarrow> BiasT b)])"

text \<open>
  A zero-dimensional zero bias broadcasts against every bias of shape (batch, targets) it is
  added to, so a fully initialised object is read as a relation whose scalar bias is a zero
  vector with one entry per target expression.
\<close>

definition bias_of :: "mat \<Rightarrow> attr_value option \<Rightarrow> vec option" where
  "bias_of c v = (case v of Some Scalar0 \<Rightarrow> Some (replicate (length c) 0)
                  | Some (BiasT b) \<Rightarrow> Some b | _ \<Rightarrow> None)"

definition as_relation :: "(attr_name \<rightharpoonup> attr_value) \<Rightarrow> DeepPoly option" where
  "as_relation obj =
     (case (obj A_x_l_coef, obj A_x_u_coef) of
        (Some (Coef cl), Some (Coef cu)) \<Rightarrow>
          (case (bias_of cl (obj A_x_l_bias), bias_of cu (obj A_x_u_bias)) of
             (Some bl, Some bu) \<Rightarrow>
               Some \<lparr>x_l_coef = cl, x_u_coef = cu, x_l_bias = bl, x_u_bias = bu\<rparr>
           | _ \<Rightarrow> None)
      | _ \<Rightarrow> None)"

text \<open>\<^verbatim>\<open>DeepPoly(expr_coef=e)\<close>: the seed relation of a propagation.\<close>

definition seed :: "mat \<Rightarrow> DeepPoly" where
  "seed e = \<lparr>x_l_coef = e, x_u_coef = e,
             x_l_bias = replicate (length e) 0, x_u_bias = replicate (length e) 0\<rparr>"

text \<open>\<^verbatim>\<open>DeepPoly(x_l_coef, x_u_coef)\<close>: both coefficients given, both biases defaulted.\<close>

definition coef_only :: "mat \<Rightarrow> mat \<Rightarrow> DeepPoly" where
  "coef_only cl cu = \<lparr>x_l_coef = cl, x_u_coef = cu,
                      x_l_bias = replicate (length cl) 0, x_u_bias = replicate (length cu) 0\<rparr>"

subsection \<open>Elementwise tensor operations\<close>

definition dot :: "vec \<Rightarrow> vec \<Rightarrow> real" where
  "dot a b = sum_list (map2 (*) a b)"

definition vadd :: "vec \<Rightarrow> vec \<Rightarrow> vec" where
  "vadd a b = map2 (+) a b"

definition vmul :: "vec \<Rightarrow> vec \<Rightarrow> vec" where
  "vmul a b = map2 (*) a b"

text \<open>\<^verbatim>\<open>torch.where(cond, a, b)\<close> on tensors of one shape.\<close>

definition tensor_where :: "bool list \<Rightarrow> 'a list \<Rightarrow> 'a list \<Rightarrow> 'a list" where
  "tensor_where c a b = map (\<lambda>(c, a, b). if c then a else b) (zip c (zip a b))"

definition zeros_like :: "vec \<Rightarrow> vec" where
  "zeros_like v = replicate (length v) 0"

definition ones_like :: "vec \<Rightarrow> vec" where
  "ones_like v = replicate (length v) 1"

text \<open>
  Modelled from the spec: \<^verbatim>\<open>get_neg_pos_comp\<close> of \<^verbatim>\<open>AIDomains/ai_util.py\<close>, which is not
  among the source files. It returns the strictly negative and the strictly positive part
  of every coefficient, a zero coefficient being zero on both sides.
\<close>

definition neg_part :: "real \<Rightarrow> real" where
  "neg_part c = (if c < 0 then c else 0)"

definition pos_part :: "real \<Rightarrow> real" where
  "pos_part c = (if c > 0 then c else 0)"

definition get_neg_pos_comp :: "mat \<Rightarrow> mat \<times> mat" where
  "get_neg_pos_comp x = (map (map neg_part) x, map (map pos_part) x)"

section \<open>The ReLU relaxation\<close>

text \<open>
  Rounding to float32: a real number is rounded to the nearest number with a significand of
  24 bits, ties to the even significand. \<open>pow2 e\<close> is \<open>2\<close> to the power \<open>e\<close>, \<open>binade x\<close> the
  exponent of the power of two at or below \<open>\<bar>x\<bar>\<close>, so that \<open>pow2 (binade x - 23)\<close> is the
  spacing of the float32 numbers around \<open>x\<close>. The range of the exponent is not bounded.
\<close>

definition pow2 :: "int \<Rightarrow> real" where
  "pow2 e = (if 0 \<le> e then 2 ^ nat e else 1 / 2 ^ nat (- e))"

definition binade :: "real \<Rightarrow> int" where
  "binade x = \<lfloor>log 2 \<bar>x\<bar>\<rfloor>"

definition round_half_even :: "real \<Rightarrow> int" where
  "round_half_even y =
     (let f = \<lfloor>y\<rfloor>
      in if y - of_int f < 1 / 2 then f
         else if 1 / 2 < y - of_int f then f + 1
         else if even f then f else f + 1)"

definition round_float32 :: "real \<Rightarrow> real" where
  "round_float32 x =
     (if x = 0 then 0
      else let q = pow2 (binade x - 23) in q * of_int (round_half_even (x / q)))"

text \<open>
  The guard \<^verbatim>\<open>1e-15\<close> of the two divisions in \<^verbatim>\<open>dp_relu\<close>, and their denominator
  \<^verbatim>\<open>x_ub - x_lb + 1e-15\<close>: a float32 difference, to which the guard is added as a float32
  number, the sum being a float32 number again.
\<close>

definition eps :: real where
  "eps = 1 / 10 ^ 15"

definition relu_denominator :: "real \<Rightarrow> real \<Rightarrow> real" where
  "relu_denominator lb ub = round_float32 (round_float32 (ub - lb) + round_float32 eps)"

text \<open>
  One entry of a tensor quotient \<^verbatim>\<open>a / b\<close>. Where the divisor is 0 torch writes inf or nan
  and raises nothing; \<open>None\<close> stands for such an entry.
\<close>

definition tensor_div :: "real \<Rightarrow> real \<Rightarrow> real option" where
  "tensor_div a b = (if b = 0 then None else Some (a / b))"

text \<open>
  The slopes and offsets that \<^verbatim>\<open>dp_relu\<close> computes from the cached bounds, before they
  meet the coefficients, in the order of the source; the second component is the learned
  parameter after the call, whose data is overwritten when \<^verbatim>\<open>it == 0\<close>. The two tensors
  that come out of a division hold entries that may be inf or nan.
\<close>

record relaxation_entries =
  lambda_l_entries :: vec
  lambda_u_entries :: "real option list"
  mu_l_entries :: vec
  mu_u_entries :: "real option list"

definition relu_entries ::
  "vec \<times> vec \<Rightarrow> int \<Rightarrow> vec option \<Rightarrow> relaxation_entries \<times> vec option" where
  "relu_entries bnds it dp_lambda =
     (let x_lb = fst bnds; x_ub = snd bnds;
          lam_l = tensor_where (map2 (\<lambda>lb ub. ub < - lb) x_lb x_ub)
                    (zeros_like x_lb) (ones_like x_lb);
          lam_u = map2 (\<lambda>lb ub. tensor_div ub (relu_denominator lb ub)) x_lb x_ub;
          dp_lambda' = (case dp_lambda of None \<Rightarrow> None
                        | Some p \<Rightarrow> Some (if it = 0 then lam_l else p));
          lam_l = (case dp_lambda' of None \<Rightarrow> lam_l | Some p \<Rightarrow> p);
          lam_l = tensor_where (map (\<lambda>ub. ub < 0) x_ub) (zeros_like x_lb) lam_l;
          lam_u = tensor_where (map (\<lambda>ub. ub < 0) x_ub) (map Some (zeros_like x_ub)) lam_u;
          lam_l = tensor_where (map (\<lambda>lb. lb > 0) x_lb) (ones_like x_lb) lam_l;
          lam_u = tensor_where (map (\<lambda>lb. lb > 0) x_lb) (map Some (ones_like x_ub)) lam_u;
          m_l = zeros_like x_lb;
          m_u = tensor_where (map2 (\<lambda>lb ub. lb < 0 \<and> ub > 0) x_lb x_ub)
                  (map2 (\<lambda>lb ub. tensor_div (- ub * lb) (relu_denominator lb ub)) x_lb x_ub)
                  (map Some (zeros_like x_lb))
      in (\<lparr>lambda_l_entries = lam_l, lambda_u_entries = lam_u, mu_l_entries = m_l,
           mu_u_entries = m_u\<rparr>, dp_lambda'))"

text \<open>
  The relaxation as real numbers. No entry of the slopes and offsets is inf or nan, whatever
  the bounds (lemma \<open>relu_entries_finite\<close> below), so each entry is read by \<open>the\<close>.
\<close>

record relaxation =
  lambda_l :: vec
  lambda_u :: vec
  mu_l :: vec
  mu_u :: vec

definition relu_relaxation ::
  "vec \<times> vec \<Rightarrow> int \<Rightarrow> vec option \<Rightarrow> relaxation \<times> vec option" where
  "relu_relaxation bnds it dp_lambda =
     (let (e, dp_lambda') = relu_entries bnds it dp_lambda
      in (\<lparr>lambda_l = lambda_l_entries e, lambda_u = map the (lambda_u_entries e),
           mu_l = mu_l_entries e, mu_u = map the (mu_u_entries e)\<rparr>, dp_lambda'))"

text \<open>
  \<^verbatim>\<open>dp_relu\<close>: the relation over the output of a ReLU layer, expressed over its input.
  Both branches of the final reduction (\<^verbatim>\<open>sum(2)\<close> for a feature vector,
  \<^verbatim>\<open>sum((2, 3, 4))\<close> for an image) sum over every reference axis.
\<close>

definition dp_relu ::
  "DeepPoly \<Rightarrow> vec \<times> vec \<Rightarrow> int \<Rightarrow> vec option \<Rightarrow> DeepPoly \<times> vec option" where
  "dp_relu self bnds it dp_lambda =
     (let (r, dp_lambda') = relu_relaxation bnds it dp_lambda;
          (neg_x_l_coef, pos_x_l_coef) = get_neg_pos_comp (x_l_coef self);
          (neg_x_u_coef, pos_x_u_coef) = get_neg_pos_comp (x_u_coef self);
          xl = map2 (\<lambda>p n. vadd (vmul p (lambda_l r)) (vmul n (lambda_u r)))
                 pos_x_l_coef neg_x_l_coef;
          new_x_l_bias = map2 (\<lambda>p n. sum_list (vadd (vmul p (mu_l r)) (vmul n (mu_u r))))
                 pos_x_l_coef neg_x_l_coef;
          xu = map2 (\<lambda>p n. vadd (vmul p (lambda_u r)) (vmul n (lambda_l r)))
                 pos_x_u_coef neg_x_u_coef;
          new_x_u_bias = map2 (\<lambda>p n. sum_list (vadd (vmul p (mu_u r)) (vmul n (mu_l r))))
                 pos_x_u_coef neg_x_u_coef
      in (\<lparr>x_l_coef = xl, x_u_coef = xu,
           x_l_bias = vadd (x_l_bias self) new_x_l_bias,
           x_u_bias = vadd (x_u_bias self) new_x_u_bias\<rparr>, dp_lambda'))"

section \<open>Affine transfer operations\<close>

text \<open>
  \<^verbatim>\<open>row.matmul(weight)\<close> for a weight of shape (out, in) with \<open>n\<close> columns: the sum of the
  rows of the weight, each scaled by the coefficient of its output.
\<close>

fun vec_mat :: "nat \<Rightarrow> vec \<Rightarrow> mat \<Rightarrow> vec" where
  "vec_mat n (c # cs) (r # rs) = vadd (map ((*) c) r) (vec_mat n cs rs)"
| "vec_mat n _ _ = replicate n 0"

definition ncols :: "mat \<Rightarrow> nat" where
  "ncols w = (case w of [] \<Rightarrow> 0 | r # _ \<Rightarrow> length r)"

text \<open>
  A per-channel parameter viewed against a reference of \<open>n\<close> entries: one entry per
  channel, repeated over the spatial positions of the channel (once for a feature vector).
\<close>

definition bcast :: "nat \<Rightarrow> vec \<Rightarrow> vec" where
  "bcast n v = concat (map (replicate (n div length v)) v)"

definition dp_linear :: "DeepPoly \<Rightarrow> mat \<Rightarrow> vec option \<Rightarrow> DeepPoly" where
  "dp_linear self weight bias =
     \<lparr>x_l_coef = map (\<lambda>row. vec_mat (ncols weight) row weight) (x_l_coef self),
      x_u_coef = map (\<lambda>row. vec_mat (ncols weight) row weight) (x_u_coef self),
      x_l_bias = (case bias of None \<Rightarrow> x_l_bias self
                  | Some b \<Rightarrow> vadd (x_l_bias self) (map (\<lambda>row. dot row b) (x_l_coef self))),
      x_u_bias = (case bias of None \<Rightarrow> x_u_bias self
                  | Some b \<Rightarrow> vadd (x_u_bias self) (map (\<lambda>row. dot row b) (x_u_coef self)))\<rparr>"

definition dp_bias :: "DeepPoly \<Rightarrow> vec \<Rightarrow> DeepPoly" where
  "dp_bias self bias =
     \<lparr>x_l_coef = x_l_coef self, x_u_coef = x_u_coef self,
      x_l_bias = vadd (x_l_bias self)
                   (map (\<lambda>row. sum_list (vmul row (bcast (length row) bias))) (x_l_coef self)),
      x_u_bias = vadd (x_u_bias self)
                   (map (\<lambda>row. sum_list (vmul row (bcast (length row) bias))) (x_u_coef self))\<rparr>"

definition dp_scale :: "DeepPoly \<Rightarrow> vec \<Rightarrow> DeepPoly" where
  "dp_scale self scale =
     \<lparr>x_l_coef = map (\<lambda>row. vmul row (bcast (length row) scale)) (x_l_coef self),
      x_u_coef = map (\<lambda>row. vmul row (bcast (length row) scale)) (x_u_coef self),
      x_l_bias = x_l_bias self, x_u_bias = x_u_bias self\<rparr>"

definition dp_add :: "DeepPoly \<Rightarrow> DeepPoly \<Rightarrow> DeepPoly" where
  "dp_add self other =
     \<lparr>x_l_coef = map2 vadd (x_l_coef self) (x_l_coef other),
      x_u_coef = map2 vadd (x_u_coef self) (x_u_coef other),
      x_l_bias = vadd (x_l_bias self) (x_l_bias other),
      x_u_bias = vadd (x_u_bias self) (x_u_bias other)\<rparr>"

text \<open>
  \<^verbatim>\<open>dp_global_avg_pool2d\<close>: a coefficient of shape (batch, targets, C, 1, 1) times a tensor
  of ones of shape (1, 1, 1, H, W), divided by the spatial size \<open>H * W\<close>.
\<close>

definition dp_global_avg_pool2d :: "DeepPoly \<Rightarrow> nat \<times> nat \<Rightarrow> DeepPoly" where
  "dp_global_avg_pool2d self hw =
     (let input_spatial_size = fst hw * snd hw;
          spread = (\<lambda>row. concat (map (\<lambda>c. replicate input_spatial_size
                                         (c * 1 / real input_spatial_size)) row))
      in \<lparr>x_l_coef = map spread (x_l_coef self), x_u_coef = map spread (x_u_coef self),
          x_l_bias = x_l_bias self, x_u_bias = x_u_bias self\<rparr>)"

definition dp_normalize :: "DeepPoly \<Rightarrow> vec \<Rightarrow> vec \<Rightarrow> DeepPoly" where
  "dp_normalize self mean sigma =
     (let shift = map2 (\<lambda>m s. - m / s) mean sigma
      in \<lparr>x_l_coef = map (\<lambda>row. map2 (/) row (bcast (length row) sigma)) (x_l_coef self),
          x_u_coef = map (\<lambda>row. map2 (/) row (bcast (length row) sigma)) (x_u_coef self),
          x_l_bias = vadd (x_l_bias self)
                       (map (\<lambda>row. sum_list (vmul row (bcast (length row) shift)))
                          (x_l_coef self)),
          x_u_bias = vadd (x_u_bias self)
                       (map (\<lambda>row. sum_list (vmul row (bcast (length row) shift)))
                          (x_u_coef self))\<rparr>)"

text \<open>
  \<^verbatim>\<open>dp_batch_norm\<close>. The rank of the coefficient tensor is 2 plus the rank \<open>out_rank\<close> of
  the output of the layer; rank 3 takes the \<^verbatim>\<open>matmul\<close> branch, rank 5 the broadcasting
  branch, and both sum the coefficients times the per-channel shift.
\<close>

definition dp_batch_norm ::
  "DeepPoly \<Rightarrow> nat \<Rightarrow> vec \<Rightarrow> vec \<Rightarrow> vec \<Rightarrow> vec option \<Rightarrow> real \<Rightarrow> py_error + DeepPoly" where
  "dp_batch_norm self out_rank current_mean current_var weight bias bn_eps =
     (let c = map2 (\<lambda>w v. w / sqrt (v + bn_eps)) weight current_var;
          b = (case bias of None \<Rightarrow> map2 (\<lambda>m c. - m * c) current_mean c
               | Some bs \<Rightarrow> vadd (map2 (\<lambda>m c. - m * c) current_mean c) bs)
      in if 2 + out_rank = 3 \<or> 2 + out_rank = 5 then
           Inr \<lparr>x_l_coef = map (\<lambda>row. vmul row (bcast (length row) c)) (x_l_coef self),
                x_u_coef = map (\<lambda>row. vmul row (bcast (length row) c)) (x_u_coef self),
                x_l_bias = vadd (x_l_bias self)
                             (map (\<lambda>row. sum_list (vmul row (bcast (length row) b)))
                                (x_l_coef self)),
                x_u_bias = vadd (x_u_bias self)
                             (map (\<lambda>row. sum_list (vmul row (bcast (length row) b)))
                                (x_u_coef self))\<rparr>
         else Inl NotImplementedError)"

definition dp_flatten :: "DeepPoly \<Rightarrow> nat list \<Rightarrow> DeepPoly" where
  "dp_flatten self input_size =
     \<lparr>x_l_coef = x_l_coef self, x_u_coef = x_u_coef self,
      x_l_bias = x_l_bias self, x_u_bias = x_u_bias self\<rparr>"

subsection \<open>Transfer operations built on primitives of torch\<close>

text \<open>
  \<^verbatim>\<open>F.conv_transpose2d\<close> and \<^verbatim>\<open>F.interpolate\<close> belong to torch. A layer carries the action
  of the primitive on one flattened coefficient row, with the weight, stride, padding, groups
  and dilation of the layer supplied, as a function of the output padding that the source
  computes. Sizes are Python integers; \<open>%\<close> by zero raises.
\<close>

datatype size2 = One int | Two int int

definition pair_of :: "size2 \<Rightarrow> int \<times> int" where
  "pair_of s = (case s of One k \<Rightarrow> (k, k) | Two a b \<Rightarrow> (a, b))"

definition output_padding_conv ::
  "int \<times> int \<times> int \<Rightarrow> int \<times> int \<Rightarrow> int \<times> int \<Rightarrow> int \<times> int \<Rightarrow> int \<times> int
     \<Rightarrow> (int \<times> int) option" where
  "output_padding_conv preconv_wh kernel_wh stride padding dilation =
     (if fst stride = 0 \<or> snd stride = 0 then None
      else Some ((fst (snd preconv_wh) + 2 * fst padding - 1
                    - fst dilation * (fst kernel_wh - 1)) mod fst stride,
                 (snd (snd preconv_wh) + 2 * snd padding - 1
                    - snd dilation * (snd kernel_wh - 1)) mod snd stride))"

definition output_padding_pool ::
  "int \<times> int \<times> int \<Rightarrow> int \<times> int \<Rightarrow> int \<times> int \<Rightarrow> int \<times> int \<Rightarrow> (int \<times> int) option" where
  "output_padding_pool preconv_wh kernel_size stride padding =
     (if fst stride = 0 \<or> snd stride = 0 then None
      else Some ((fst (snd preconv_wh) + 2 * fst padding - fst kernel_size) mod fst stride,
                 (snd (snd preconv_wh) + 2 * snd padding - snd kernel_size) mod snd stride))"

definition dp_conv ::
  "DeepPoly \<Rightarrow> int \<times> int \<times> int \<Rightarrow> int \<times> int \<Rightarrow> (int \<times> int \<Rightarrow> vec \<Rightarrow> vec) \<Rightarrow> vec option
     \<Rightarrow> int \<times> int \<Rightarrow> int \<times> int \<Rightarrow> int \<times> int \<Rightarrow> py_error + DeepPoly" where
  "dp_conv self preconv_wh kernel_wh conv_transpose2d bias stride padding dilation =
     (case output_padding_conv preconv_wh kernel_wh stride padding dilation of
        None \<Rightarrow> Inl ZeroDivisionError
      | Some output_padding \<Rightarrow>
          Inr \<lparr>x_l_coef = map (conv_transpose2d output_padding) (x_l_coef self),
               x_u_coef = map (conv_transpose2d output_padding) (x_u_coef self),
               x_l_bias = (case bias of None \<Rightarrow> x_l_bias self
                           | Some b \<Rightarrow> vadd (x_l_bias self)
                               (map (\<lambda>row. sum_list (vmul row (bcast (length row) b)))
                                  (x_l_coef self))),
               x_u_bias = (case bias of None \<Rightarrow> x_u_bias self
                           | Some b \<Rightarrow> vadd (x_u_bias self)
                               (map (\<lambda>row. sum_list (vmul row (bcast (length row) b)))
                                  (x_u_coef self)))\<rparr>)"

text \<open>
  \<^verbatim>\<open>dp_avg_pool2d\<close>: the transposed convolution with the uniform kernel
  \<^verbatim>\<open>1 / prod(kernel_size)\<close>, one group per channel.
\<close>

definition dp_avg_pool2d ::
  "DeepPoly \<Rightarrow> int \<times> int \<times> int \<Rightarrow> size2 \<Rightarrow> size2 \<Rightarrow> size2
     \<Rightarrow> (real \<Rightarrow> int \<times> int \<Rightarrow> vec \<Rightarrow> vec) \<Rightarrow> py_error + DeepPoly" where
  "dp_avg_pool2d self preconv_wh kernel_size stride padding conv_transpose2d =
     (let kernel_size = pair_of kernel_size; padding = pair_of padding;
          stride = pair_of stride
      in case output_padding_pool preconv_wh kernel_size stride padding of
           None \<Rightarrow> Inl ZeroDivisionError
         | Some output_padding \<Rightarrow>
             (let weight = 1 / real_of_int (fst kernel_size * snd kernel_size)
              in Inr \<lparr>x_l_coef = map (conv_transpose2d weight output_padding) (x_l_coef self),
                      x_u_coef = map (conv_transpose2d weight output_padding) (x_u_coef self),
                      x_l_bias = x_l_bias self, x_u_bias = x_u_bias self\<rparr>))"

definition dp_upsample :: "DeepPoly \<Rightarrow> (vec \<Rightarrow> vec) \<Rightarrow> DeepPoly" where
  "dp_upsample self interpolate =
     \<lparr>x_l_coef = map interpolate (x_l_coef self), x_u_coef = map interpolate (x_u_coef self),
      x_l_bias = x_l_bias self, x_u_bias = x_u_bias self\<rparr>"

section \<open>Layers and the abstract input\<close>

text \<open>
  A layer is its kind, with the parameters the propagation reads, and its bound cache
  \<^verbatim>\<open>layer.bounds\<close>. The kinds are the classes that \<^verbatim>\<open>backprop_dp\<close> tests for, and
  \<open>Other\<close> is a module of any other class. A layer whose forward pass is a primitive of
  torch carries that forward pass; \<open>GlobalAvgPool2d\<close> carries the last two axes of the shape
  of its cached bounds, which the flattened cache does not keep, and \<open>BatchNorm\<close> the rank of
  its output.
\<close>

datatype layer = Layer (kind: layer_kind) (bounds: "(vec \<times> vec) option")
and layer_kind =
    Sequential "layer list"
  | Linear mat "vec option"
  | Flatten "nat list"
  | Normalization vec vec
  | ReLU "vec option" "nat list"
  | Conv2d "int \<times> int \<times> int" "int \<times> int" "vec \<Rightarrow> vec" "int \<times> int \<Rightarrow> vec \<Rightarrow> vec" "vec option"
      "int \<times> int" "int \<times> int" "int \<times> int"
  | GlobalAvgPool2d "nat \<times> nat"
  | AvgPool2d "int \<times> int \<times> int" size2 size2 size2 "vec \<Rightarrow> vec" "real \<Rightarrow> int \<times> int \<Rightarrow> vec \<Rightarrow> vec"
  | Upsample "vec \<Rightarrow> vec" "vec \<Rightarrow> vec"
  | BatchNorm nat bool vec vec vec vec vec "vec option" real
  | Bias vec
  | Scale vec
  | ResBlock layer "layer option" "layer option"
  | Other "vec \<Rightarrow> vec"

text \<open>
  The fields, in order. \<open>Linear weight bias\<close>; \<open>Flatten dim\<close>; \<open>Normalization mean sigma\<close>;
  \<open>ReLU deepz_lambda output_dim\<close>;
  \<open>Conv2d preconv_wh kernel_wh forward conv_transpose2d bias stride padding dilation\<close>;
  \<open>AvgPool2d preconv_wh kernel_size stride padding forward conv_transpose2d\<close>;
  \<open>Upsample forward interpolate\<close>;
  \<open>BatchNorm out_rank training current_mean current_var running_mean running_var weight
  bias eps\<close>; \<open>ResBlock residual downsample relu_final\<close>; \<open>Other forward\<close>.
\<close>

definition is_ReLU :: "layer \<Rightarrow> bool" where
  "is_ReLU l = (case kind l of ReLU _ _ \<Rightarrow> True | _ \<Rightarrow> False)"

text \<open>
  Modelled from the spec: \<^verbatim>\<open>update_bounds\<close> of \<^verbatim>\<open>AIDomains/abstract_layers.py\<close>, which is
  not among the source files. It writes the numeric bounds into the cache of the layer.
\<close>

definition update_bounds :: "layer \<Rightarrow> vec \<times> vec \<Rightarrow> layer" where
  "update_bounds l b = Layer (kind l) (Some b)"

text \<open>
  The abstract input region \<^verbatim>\<open>HybridZonotope\<close> belongs to \<^verbatim>\<open>AIDomains/zonotope.py\<close>. The
  propagation reads its domain tag, its interval \<^verbatim>\<open>concretize()\<close> and, for the domain
  \<^verbatim>\<open>zono\<close>, the bounds of \<^verbatim>\<open>flatten().linear(coef, bias).concretize()\<close>.
\<close>

record HybridZonotope =
  head :: vec
  domain :: string
  concretize :: "vec \<times> vec"
  linear_concretize :: "mat \<Rightarrow> vec \<Rightarrow> vec \<times> vec"

section \<open>Concretization and backward substitution\<close>

definition dp_concretize ::
  "DeepPoly \<Rightarrow> (vec \<times> vec) option \<Rightarrow> HybridZonotope option \<Rightarrow> py_error + vec \<times> vec" where
  "dp_concretize self bnds abs_input =
     (if bnds = None \<and> abs_input = None then Inl AssertionError
      else if abs_input \<noteq> None \<and> domain (the abs_input) = ''zono'' then
        Inr (fst (linear_concretize (the abs_input) (x_l_coef self) (x_l_bias self)),
             snd (linear_concretize (the abs_input) (x_u_coef self) (x_u_bias self)))
      else
        (let bnds = (case bnds of None \<Rightarrow> concretize (the abs_input) | Some b \<Rightarrow> b);
             lb_x = fst bnds; ub_x = snd bnds;
             (neg_x_l_coef, pos_x_l_coef) = get_neg_pos_comp (x_l_coef self);
             (neg_x_u_coef, pos_x_u_coef) = get_neg_pos_comp (x_u_coef self)
         in Inr (vadd (x_l_bias self)
                   (map2 (\<lambda>p n. sum_list (vadd (vmul p lb_x) (vmul n ub_x)))
                      pos_x_l_coef neg_x_l_coef),
                 vadd (x_u_bias self)
                   (map2 (\<lambda>p n. sum_list (vadd (vmul p ub_x) (vmul n lb_x)))
                      pos_x_u_coef neg_x_u_coef))))"

text \<open>
  \<^verbatim>\<open>backprop_dp\<close> returns the layer as the call leaves it, since the ReLU branch assigns
  \<^verbatim>\<open>layer.deepz_lambda\<close> and \<^verbatim>\<open>dp_relu\<close> overwrites its data, together with the relation.
  The sub-layers of a \<open>Sequential\<close> are visited from the last to the first. The branch for
  \<open>ResBlock\<close> evaluates the name \<^verbatim>\<open>lambda_layer\<close>, which nothing binds, before it calls
  \<^verbatim>\<open>dp_res_block\<close>. The test \<^verbatim>\<open>deepz_lambda.shape[0] != bounds[0].shape[0]\<close> compares batch
  sizes, equal in a model of one batch element. Reading the cached bounds of a layer that
  has none raises \<^verbatim>\<open>TypeError\<close>.
\<close>

fun backprop_dp :: "layer \<Rightarrow> DeepPoly \<Rightarrow> int \<Rightarrow> bool \<Rightarrow> py_error + layer \<times> DeepPoly"
and backprop_layers ::
  "layer list \<Rightarrow> DeepPoly \<Rightarrow> int \<Rightarrow> bool \<Rightarrow> py_error + layer list \<times> DeepPoly" where
  "backprop_dp (Layer (Sequential ls) b) d it use_lambda =
     (case backprop_layers ls d it use_lambda of
        Inl e \<Rightarrow> Inl e
      | Inr (ls', d') \<Rightarrow> Inr (Layer (Sequential ls') b, d'))"
| "backprop_dp (Layer (Linear weight bias) b) d it use_lambda =
     Inr (Layer (Linear weight bias) b, dp_linear d weight bias)"
| "backprop_dp (Layer (Flatten input_size) b) d it use_lambda =
     Inr (Layer (Flatten input_size) b, dp_flatten d input_size)"
| "backprop_dp (Layer (Normalization mean sigma) b) d it use_lambda =
     Inr (Layer (Normalization mean sigma) b, dp_normalize d mean sigma)"
| "backprop_dp (Layer (ReLU deepz_lambda output_dim) b) d it use_lambda =
     (case b of
        None \<Rightarrow> Inl TypeError
      | Some bnds \<Rightarrow>
          (let deepz_lambda = (if use_lambda \<and> deepz_lambda = None
                               then Some (map (\<lambda>_. - 1) (fst bnds)) else deepz_lambda);
               (d', dp_lambda') = dp_relu d bnds it (if use_lambda then deepz_lambda else None)
           in Inr (Layer (ReLU (if use_lambda then dp_lambda' else deepz_lambda) output_dim) b,
                   d')))"
| "backprop_dp (Layer (Conv2d preconv_wh kernel_wh fwd conv_transpose2d bias stride padding dilation)
       b) d it use_lambda =
     (case dp_conv d preconv_wh kernel_wh conv_transpose2d bias stride padding dilation of
        Inl e \<Rightarrow> Inl e
      | Inr d' \<Rightarrow>
          Inr (Layer (Conv2d preconv_wh kernel_wh fwd conv_transpose2d bias stride padding dilation) b,
               d'))"
| "backprop_dp (Layer (GlobalAvgPool2d hw) b) d it use_lambda =
     (case b of
        None \<Rightarrow> Inl TypeError
      | Some bnds \<Rightarrow> Inr (Layer (GlobalAvgPool2d hw) b, dp_global_avg_pool2d d hw))"
| "backprop_dp (Layer (AvgPool2d preconv_wh kernel_size stride padding fwd conv_transpose2d) b)
       d it use_lambda =
     (case dp_avg_pool2d d preconv_wh kernel_size stride padding conv_transpose2d of
        Inl e \<Rightarrow> Inl e
      | Inr d' \<Rightarrow>
          Inr (Layer (AvgPool2d preconv_wh kernel_size stride padding fwd conv_transpose2d) b, d'))"
| "backprop_dp (Layer (Upsample fwd interpolate) b) d it use_lambda =
     Inr (Layer (Upsample fwd interpolate) b, dp_upsample d interpolate)"
| "backprop_dp (Layer (BatchNorm out_rank training current_mean current_var running_mean
       running_var weight bias bn_eps) b) d it use_lambda =
     (let mean = (if training then current_mean else running_mean);
          var = (if training then current_var else running_var)
      in case dp_batch_norm d out_rank mean var weight bias bn_eps of
           Inl e \<Rightarrow> Inl e
         | Inr d' \<Rightarrow>
             Inr (Layer (BatchNorm out_rank training current_mean current_var running_mean
                    running_var weight bias bn_eps) b, d'))"
| "backprop_dp (Layer (Bias bias) b) d it use_lambda =
     Inr (Layer (Bias bias) b, dp_bias d bias)"
| "backprop_dp (Layer (Scale scale) b) d it use_lambda =
     Inr (Layer (Scale scale) b, dp_scale d scale)"
| "backprop_dp (Layer (ResBlock residual downsample relu_final) b) d it use_lambda =
     Inl NameError"
| "backprop_dp (Layer (Other fwd) b) d it use_lambda = Inl RuntimeError"
| "backprop_layers [] d it use_lambda = Inr ([], d)"
| "backprop_layers (l # ls) d it use_lambda =
     (case backprop_layers ls d it use_lambda of
        Inl e \<Rightarrow> Inl e
      | Inr (ls', d') \<Rightarrow>
          (case backprop_dp l d' it use_lambda of
             Inl e \<Rightarrow> Inl e
           | Inr (l', d'') \<Rightarrow> Inr (l' # ls', d'')))"

text \<open>
  \<^verbatim>\<open>dp_res_block\<close>. Its argument \<^verbatim>\<open>dp_lambda\<close> is \<^verbatim>\<open>None\<close> or a dictionary; the method
  asks whether the layer object \<^verbatim>\<open>relu_final\<close> is a key and reads the entries under the
  strings \<^verbatim>\<open>relu_final\<close>, \<^verbatim>\<open>residual\<close> and \<^verbatim>\<open>downsample\<close>, the last two of which it passes
  on as the flag \<^verbatim>\<open>use_lambda\<close>. The result carries the two branches and the dictionary as
  the call leaves them.
\<close>

record lambda_dict =
  has_relu_final_layer :: bool
  relu_final_entry :: "vec option"
  residual_entry :: "bool option"
  downsample_entry :: "bool option"

definition relu_final_lambda :: "lambda_dict option \<Rightarrow> py_error + vec option" where
  "relu_final_lambda dp_lambda =
     (case dp_lambda of
        None \<Rightarrow> Inr None
      | Some dl \<Rightarrow>
          if has_relu_final_layer dl
          then (case relu_final_entry dl of None \<Rightarrow> Inl KeyError | Some p \<Rightarrow> Inr (Some p))
          else Inr None)"

definition branch_lambda :: "lambda_dict option \<Rightarrow> (lambda_dict \<Rightarrow> bool option) \<Rightarrow> bool" where
  "branch_lambda dp_lambda entry =
     (case dp_lambda of None \<Rightarrow> False
      | Some dl \<Rightarrow> (case entry dl of None \<Rightarrow> False | Some u \<Rightarrow> u))"

definition dp_res_block ::
  "DeepPoly \<Rightarrow> layer \<Rightarrow> layer option \<Rightarrow> layer option \<Rightarrow> int \<Rightarrow> lambda_dict option
     \<Rightarrow> py_error + DeepPoly \<times> layer \<times> layer option \<times> lambda_dict option" where
  "dp_res_block self residual downsample relu_final it dp_lambda =
     (case (case relu_final of
              None \<Rightarrow> Inr (self, dp_lambda)
            | Some rf \<Rightarrow>
                (case relu_final_lambda dp_lambda of
                   Inl e \<Rightarrow> Inl e
                 | Inr p \<Rightarrow>
                     (case bounds rf of
                        None \<Rightarrow> Inl TypeError
                      | Some bnds \<Rightarrow>
                          (let (d, p') = dp_relu self bnds it p
                           in Inr (d, (case p' of None \<Rightarrow> dp_lambda
                                       | Some v \<Rightarrow> map_option
                                           (\<lambda>dl. dl\<lparr>relu_final_entry := Some v\<rparr>)
                                           dp_lambda)))))) of
        Inl e \<Rightarrow> Inl e
      | Inr (in_dp_elem, dp_lambda') \<Rightarrow>
          (let id_dp_elem = coef_only (x_l_coef in_dp_elem) (x_u_coef in_dp_elem)
           in case backprop_dp residual in_dp_elem it (branch_lambda dp_lambda residual_entry) of
                Inl e \<Rightarrow> Inl e
              | Inr (residual', res_dp_elem) \<Rightarrow>
                  (case downsample of
                     None \<Rightarrow>
                       Inr (dp_add id_dp_elem res_dp_elem, residual', None, dp_lambda')
                   | Some ds \<Rightarrow>
                       (case backprop_dp ds id_dp_elem it
                               (branch_lambda dp_lambda downsample_entry) of
                          Inl e \<Rightarrow> Inl e
                        | Inr (ds', id_dp_elem') \<Rightarrow>
                            Inr (dp_add id_dp_elem' res_dp_elem, residual', Some ds',
                                 dp_lambda')))))"

text \<open>
  The loop of \<^verbatim>\<open>backward_deeppoly\<close>, \<open>Suc j\<close> layers from its end: it pulls the relation
  through layer \<open>j\<close>, concretizes where the source does and intersects the partial bounds.
  The accumulator is \<^verbatim>\<open>None\<close> until the first concretization.
\<close>

fun backward_loop ::
  "layer list \<Rightarrow> nat \<Rightarrow> DeepPoly \<Rightarrow> int \<Rightarrow> bool \<Rightarrow> bool \<Rightarrow> HybridZonotope option
     \<Rightarrow> (vec \<times> vec) option \<Rightarrow> py_error + layer list \<times> (vec \<times> vec) option" where
  "backward_loop net 0 d it use_lambda use_intermediate abs_inputs acc = Inr (net, acc)"
| "backward_loop net (Suc j) d it use_lambda use_intermediate abs_inputs acc =
     (if j \<ge> length net then Inl IndexError
      else case backprop_dp (net ! j) d it use_lambda of
             Inl e \<Rightarrow> Inl e
           | Inr (layer, d') \<Rightarrow>
               if j = 0 \<or> (use_intermediate \<and> bounds layer \<noteq> None) then
                 (case dp_concretize d' (if j > 0 then bounds layer else None)
                         (if j > 0 then None else abs_inputs) of
                    Inl e \<Rightarrow> Inl e
                  | Inr tmp \<Rightarrow>
                      backward_loop (net[j := layer]) j d' it use_lambda use_intermediate
                        abs_inputs
                        (Some (case acc of
                                 None \<Rightarrow> tmp
                               | Some a \<Rightarrow> (map2 max (fst a) (fst tmp),
                                            map2 min (snd a) (snd tmp)))))
               else backward_loop (net[j := layer]) j d' it use_lambda use_intermediate
                      abs_inputs acc)"

definition backward_deeppoly ::
  "layer list \<Rightarrow> int \<Rightarrow> DeepPoly \<Rightarrow> int \<Rightarrow> bool \<Rightarrow> bool \<Rightarrow> HybridZonotope option
     \<Rightarrow> py_error + layer list \<times> (vec \<times> vec) option" where
  "backward_deeppoly net layer_idx d it use_lambda use_intermediate abs_inputs =
     backward_loop net (nat (layer_idx + 1)) d it use_lambda use_intermediate abs_inputs None"

section \<open>The recursive bound solver\<close>

text \<open>
  The state of \<^verbatim>\<open>compute_dp_relu_bounds\<close>: the layers of the network, the list
  \<^verbatim>\<open>already_bounded_layers\<close> that the recursive calls share, and a log of the layer indices
  at which the solver started a backward substitution, kept to count the passes.
\<close>

record solver_state =
  layers :: "layer list"
  already_bounded_layers :: "nat list"
  substitutions :: "nat list"

definition eye :: "nat \<Rightarrow> mat" where
  "eye k = map (\<lambda>i. map (\<lambda>j. if i = j then 1 else 0) [0..<k]) [0..<k]"

definition relu_output_dim :: "layer \<Rightarrow> nat list" where
  "relu_output_dim l = (case kind l of ReLU _ output_dim \<Rightarrow> output_dim | _ \<Rightarrow> [])"

text \<open>
  The last part of \<^verbatim>\<open>compute_dp_relu_bounds\<close> for a layer index above 0: nothing when the
  layer is not a ReLU, otherwise one backward substitution seeded with the identity over the
  output of the layer, whose result goes to the cache of the layer.
\<close>

definition bound_last_layer ::
  "solver_state \<Rightarrow> nat \<Rightarrow> HybridZonotope \<Rightarrow> int \<Rightarrow> bool \<Rightarrow> bool \<Rightarrow> py_error + solver_state" where
  "bound_last_layer s max_layer_id abs_input it use_lambda use_intermediate =
     (if max_layer_id \<ge> length (layers s) then Inl IndexError
      else if \<not> is_ReLU (layers s ! max_layer_id) then Inr s
      else
        (let last_layer = layers s ! max_layer_id;
             k = prod_list (relu_output_dim last_layer)
         in case backward_deeppoly (layers s) (int max_layer_id - 1) (seed (eye k)) it
                   use_lambda use_intermediate (Some abs_input) of
              Inl e \<Rightarrow> Inl e
            | Inr (net', None) \<Rightarrow> Inl TypeError
            | Inr (net', Some b) \<Rightarrow>
                Inr (s\<lparr>layers := net'[max_layer_id := update_bounds (net' ! max_layer_id) b],
                       substitutions := substitutions s @ [max_layer_id]\<rparr>)))"

text \<open>
  \<^verbatim>\<open>compute_dp_relu_bounds\<close> and its loop over the layers before \<open>max_layer_id\<close>, at index
  \<open>i\<close>. The recursive call does not pass \<^verbatim>\<open>recompute_bounds\<close> on, so it runs with the
  default \<^verbatim>\<open>True\<close>. Layer indices are natural numbers.
\<close>

function compute_dp_relu_bounds ::
  "solver_state \<Rightarrow> nat \<Rightarrow> HybridZonotope \<Rightarrow> int \<Rightarrow> bool \<Rightarrow> bool \<Rightarrow> bool
     \<Rightarrow> py_error + solver_state"
and bound_previous ::
  "solver_state \<Rightarrow> nat \<Rightarrow> nat \<Rightarrow> bool \<Rightarrow> HybridZonotope \<Rightarrow> int \<Rightarrow> bool \<Rightarrow> bool \<Rightarrow> bool
     \<Rightarrow> py_error + solver_state" where
  "compute_dp_relu_bounds s max_layer_id abs_input it use_lambda recompute_bounds
       use_intermediate =
     (if max_layer_id = 0 then
        (if layers s = [] then Inl IndexError
         else Inr (s\<lparr>layers := (layers s)[0 := update_bounds (layers s ! 0)
                                                  (concretize abs_input)]\<rparr>))
      else
        (case bound_previous s max_layer_id 0 True abs_input it use_lambda recompute_bounds
                use_intermediate of
           Inl e \<Rightarrow> Inl e
         | Inr s' \<Rightarrow> bound_last_layer s' max_layer_id abs_input it use_lambda use_intermediate))"
| "bound_previous s max_layer_id i is_first_relu abs_input it use_lambda recompute_bounds
       use_intermediate =
     (if i \<ge> max_layer_id \<or> i \<ge> length (layers s) then Inr s
      else if is_ReLU (layers s ! i) \<and> i \<notin> set (already_bounded_layers s) then
        (case (if (bounds (layers s ! i) = None \<or> recompute_bounds)
                  \<and> \<not> (is_first_relu \<and> bounds (layers s ! i) \<noteq> None)
               then compute_dp_relu_bounds s i abs_input it use_lambda True use_intermediate
               else Inr s) of
           Inl e \<Rightarrow> Inl e
         | Inr s' \<Rightarrow>
             bound_previous (s'\<lparr>already_bounded_layers := already_bounded_layers s' @ [i]\<rparr>)
               max_layer_id (Suc i) False abs_input it use_lambda recompute_bounds
               use_intermediate)
      else bound_previous s max_layer_id (Suc i) is_first_relu abs_input it use_lambda
             recompute_bounds use_intermediate)"
  by pat_completeness auto
termination
  by (relation "measures [
        (\<lambda>x. case x of Inl (s, m, r) \<Rightarrow> m | Inr (s, m, i, r) \<Rightarrow> m),
        (\<lambda>x. case x of Inl _ \<Rightarrow> 1 | Inr _ \<Rightarrow> 0),
        (\<lambda>x. case x of Inl _ \<Rightarrow> 0 | Inr (s, m, i, r) \<Rightarrow> m - i)]") auto

section \<open>The forward pass and the entry point\<close>

text \<open>
  Modelled from the spec: the forward pass of the layers, of
  \<^verbatim>\<open>AIDomains/abstract_layers.py\<close>, which is not among the source files. A linear layer
  maps \<open>x\<close> to \<open>weight x + bias\<close>, normalization to \<open>(x - mean) / sigma\<close>, batch
  normalization to \<open>x * scale + shift\<close> with \<open>scale = weight / sqrt (var + eps)\<close> and
  \<open>shift = - mean * scale + bias\<close> on the statistics in use, a residual block to
  \<open>downsample(x) + residual(x)\<close> followed by its final ReLU, and global average pooling to
  the mean of each channel.
\<close>

fun forward :: "layer \<Rightarrow> vec \<Rightarrow> vec"
and forward_layers :: "layer list \<Rightarrow> vec \<Rightarrow> vec" where
  "forward (Layer (Sequential ls) b) x = forward_layers ls x"
| "forward (Layer (Linear weight bias) b) x =
     (case bias of None \<Rightarrow> map (\<lambda>row. dot row x) weight
      | Some bs \<Rightarrow> vadd (map (\<lambda>row. dot row x) weight) bs)"
| "forward (Layer (Flatten input_size) b) x = x"
| "forward (Layer (Normalization mean sigma) b) x =
     map2 (/) (map2 (-) x (bcast (length x) mean)) (bcast (length x) sigma)"
| "forward (Layer (ReLU deepz_lambda output_dim) b) x = map (max 0) x"
| "forward (Layer (Conv2d preconv_wh kernel_wh fwd conv_transpose2d bias stride padding
       dilation) b) x = fwd x"
| "forward (Layer (GlobalAvgPool2d hw) b) x =
     (let s = fst hw * snd hw
      in map (\<lambda>c. sum_list (take s (drop (c * s) x)) / real s) [0..<length x div s])"
| "forward (Layer (AvgPool2d preconv_wh kernel_size stride padding fwd conv_transpose2d) b) x =
     fwd x"
| "forward (Layer (Upsample fwd interpolate) b) x = fwd x"
| "forward (Layer (BatchNorm out_rank training current_mean current_var running_mean
       running_var weight bias bn_eps) b) x =
     (let mean = (if training then current_mean else running_mean);
          var = (if training then current_var else running_var);
          c = map2 (\<lambda>w v. w / sqrt (v + bn_eps)) weight var;
          sh = (case bias of None \<Rightarrow> map2 (\<lambda>m c. - m * c) mean c
                | Some bs \<Rightarrow> vadd (map2 (\<lambda>m c. - m * c) mean c) bs)
      in vadd (vmul x (bcast (length x) c)) (bcast (length x) sh))"
| "forward (Layer (Bias bias) b) x = vadd x (bcast (length x) bias)"
| "forward (Layer (Scale scale) b) x = vmul x (bcast (length x) scale)"
| "forward (Layer (ResBlock residual downsample relu_final) b) x =
     (let out = vadd (case downsample of None \<Rightarrow> x | Some ds \<Rightarrow> forward ds x)
                  (forward residual x)
      in case relu_final of None \<Rightarrow> out | Some rf \<Rightarrow> forward rf out)"
| "forward (Layer (Other fwd) b) x = fwd x"
| "forward_layers [] x = x"
| "forward_layers (l # ls) x = forward_layers ls (forward l x)"

text \<open>
  \<^verbatim>\<open>forward_deeppoly\<close>. \<^verbatim>\<open>net.set_dim\<close> fills shape attributes that the layers of the model
  carry already, and the forward pass on the head of the input gives the size of the
  output. Without \<^verbatim>\<open>expr_coef\<close> the final \<^verbatim>\<open>view\<close> needs a bound pair that is not
  \<^verbatim>\<open>None\<close>. The index \<^verbatim>\<open>len(net.layers) - 1\<close> of an empty network is \<open>-1\<close>, at which
  \<^verbatim>\<open>net.layers[max_layer_id]\<close> raises.
\<close>

definition forward_deeppoly ::
  "layer list \<Rightarrow> HybridZonotope \<Rightarrow> mat option \<Rightarrow> int \<Rightarrow> bool \<Rightarrow> bool \<Rightarrow> bool
     \<Rightarrow> py_error + layer list \<times> (vec \<times> vec) option" where
  "forward_deeppoly net abs_input expr_coef it use_lambda recompute_bounds use_intermediate =
     (let x = forward_layers net (head abs_input)
      in case (if recompute_bounds then
                 (if net = [] then Inl IndexError
                  else map_sum id layers
                         (compute_dp_relu_bounds
                            \<lparr>layers = net, already_bounded_layers = [], substitutions = []\<rparr>
                            (length net - 1) abs_input it False True use_intermediate))
               else Inr net) of
           Inl e \<Rightarrow> Inl e
         | Inr net' \<Rightarrow>
             (let abs_dp_element = (case expr_coef of None \<Rightarrow> seed (eye (length x))
                                    | Some e \<Rightarrow> seed e)
              in case backward_deeppoly net' (int (length net') - 1) abs_dp_element it
                        use_lambda use_intermediate (Some abs_input) of
                   Inl e \<Rightarrow> Inl e
                 | Inr (net'', r) \<Rightarrow>
                     if expr_coef = None \<and> r = None then Inl AttributeError
                     else Inr (net'', r)))"

section \<open>Notions used to state the properties\<close>

text \<open>
  A relation has \<open>T\<close> target expressions when its four tensors have \<open>T\<close> rows.
\<close>

definition has_targets :: "DeepPoly \<Rightarrow> nat \<Rightarrow> bool" where
  "has_targets d T \<longleftrightarrow>
     length (x_l_coef d) = T \<and> length (x_u_coef d) = T
   \<and> length (x_l_bias d) = T \<and> length (x_u_bias d) = T"

text \<open>
  An input region that \<^verbatim>\<open>dp_concretize\<close> reads through its interval bounds: any domain
  but \<^verbatim>\<open>zono\<close>.
\<close>

definition interval_input :: "HybridZonotope option \<Rightarrow> bool" where
  "interval_input ai \<longleftrightarrow> (case ai of None \<Rightarrow> True | Some a \<Rightarrow> domain a \<noteq> ''zono'')"

definition shaped :: "(vec \<times> vec) option \<Rightarrow> nat \<Rightarrow> bool" where
  "shaped r T \<longleftrightarrow> (case r of None \<Rightarrow> True | Some (l, u) \<Rightarrow> length l = T \<and> length u = T)"

text \<open>
  \<open>tighter a b\<close>: the bound pair \<open>a\<close> is contained in the bound pair \<open>b\<close>, entry by entry;
  no pair at all contains every pair.
\<close>

definition tighter :: "(vec \<times> vec) option \<Rightarrow> (vec \<times> vec) option \<Rightarrow> bool" where
  "tighter a b =
     (case b of
        None \<Rightarrow> True
      | Some (lb, ub) \<Rightarrow>
          (case a of
             None \<Rightarrow> False
           | Some (la, ua) \<Rightarrow>
               length la \<le> length lb \<and> length ua \<le> length ub
             \<and> (\<forall>t<length la. lb ! t \<le> la ! t) \<and> (\<forall>t<length ua. ua ! t \<le> ub ! t)))"

subsection \<open>Example relations, networks and inputs\<close>

definition rel1 :: DeepPoly where
  "rel1 = \<lparr>x_l_coef = [[1]], x_u_coef = [[1]], x_l_bias = [1], x_u_bias = [1]\<rparr>"

definition net2 :: "layer list" where
  "net2 = [Layer (Linear [[2]] None) None, Layer (ReLU None [1]) (Some ([- 1], [3]))]"

definition box1 :: HybridZonotope where
  "box1 = \<lparr>head = [0], domain = ''box'', concretize = ([- 1], [1]),
           linear_concretize = (\<lambda>c b. ([], []))\<rparr>"

subsection \<open>Notions for the recursive bound solver\<close>

text \<open>
  Two states of a layer with the same cached bounds, the same kind as far as the solver
  tests it, and the same output shape.
\<close>

definition same_shape :: "layer \<Rightarrow> layer \<Rightarrow> bool" where
  "same_shape l' l \<longleftrightarrow>
     bounds l' = bounds l \<and> is_ReLU l' = is_ReLU l \<and> relu_output_dim l' = relu_output_dim l"

definition same_kind :: "layer \<Rightarrow> layer \<Rightarrow> bool" where
  "same_kind l' l \<longleftrightarrow> is_ReLU l' = is_ReLU l \<and> relu_output_dim l' = relu_output_dim l"

text \<open>
  Every ReLU layer before index \<open>i\<close> is in \<^verbatim>\<open>already_bounded_layers\<close>.
\<close>

definition covered :: "solver_state \<Rightarrow> nat \<Rightarrow> bool" where
  "covered s i \<longleftrightarrow>
     (\<forall>j<i. j < length (layers s) \<longrightarrow> is_ReLU (layers s ! j)
        \<longrightarrow> j \<in> set (already_bounded_layers s))"

definition same_kinds :: "solver_state \<Rightarrow> solver_state \<Rightarrow> bool" where
  "same_kinds s' s \<longleftrightarrow>
     length (layers s') = length (layers s)
   \<and> (\<forall>j<length (layers s). same_kind (layers s' ! j) (layers s ! j))"

text \<open>
  Every ReLU layer before index \<open>M\<close> has cached bounds.
\<close>

definition populated :: "solver_state \<Rightarrow> nat \<Rightarrow> bool" where
  "populated s M \<longleftrightarrow>
     (\<forall>j<M. j < length (layers s) \<longrightarrow> is_ReLU (layers s ! j)
        \<longrightarrow> bounds (layers s ! j) \<noteq> None)"

text \<open>
  The accumulator of the loop of \<^verbatim>\<open>backward_deeppoly\<close> after the iteration at layer
  \<open>j\<close>, given the layer and the relation that \<^verbatim>\<open>backprop_dp\<close> returned.
\<close>

definition loop_acc ::
  "nat \<Rightarrow> layer \<Rightarrow> DeepPoly \<Rightarrow> bool \<Rightarrow> HybridZonotope option \<Rightarrow> (vec \<times> vec) option
     \<Rightarrow> py_error + (vec \<times> vec) option" where
  "loop_acc j layer d' use_intermediate abs_inputs acc =
     (if j = 0 \<or> (use_intermediate \<and> bounds layer \<noteq> None) then
        (case dp_concretize d' (if j > 0 then bounds layer else None)
                (if j > 0 then None else abs_inputs) of
           Inl e \<Rightarrow> Inl e
         | Inr tmp \<Rightarrow>
             Inr (Some (case acc of
                          None \<Rightarrow> tmp
                        | Some a \<Rightarrow> (map2 max (fst a) (fst tmp),
                                     map2 min (snd a) (snd tmp)))))
      else Inr acc)"

text \<open>The state of a top-level call with an empty \<^verbatim>\<open>already_bounded_layers\<close>.\<close>

definition start :: "layer list \<Rightarrow> solver_state" where
  "start net = \<lparr>layers = net, already_bounded_layers = [], substitutions = []\<rparr>"

definition net3 :: "layer list" where
  "net3 = [Layer (Linear [[2]] None) None, Layer (ReLU None [1]) None,
           Layer (Linear [[1]] None) None]"

definition net4 :: "layer list" where
  "net4 = [Layer (Linear [[2]] None) None, Layer (ReLU None [1]) (Some ([- 5], [5]))]"

definition net5 :: "layer list" where
  "net5 = [Layer (Linear [[2]] None) None, Layer (ReLU None [1]) (Some ([- 2], [2])),
           Layer (Linear [[1]] None) None, Layer (ReLU None [1]) (Some ([- 5], [5]))]"

definition net6 :: "layer list" where
  "net6 = [Layer (Linear [[2]] None) None, Layer (ReLU None [1]) None,
           Layer (Linear [[1]] None) None, Layer (ReLU None [1]) None,
           Layer (Linear [[1]] None) None]"

section \<open>Properties of the ReLU relaxation and of the constructor\<close>

lemma length_tensor_where:
  "length (tensor_where c a b) = min (length c) (min (length a) (length b))"
  by (simp add: tensor_where_def)

lemma nth_tensor_where:
  "i < length c \<Longrightarrow> i < length a \<Longrightarrow> i < length b
     \<Longrightarrow> tensor_where c a b ! i = (if c ! i then a ! i else b ! i)"
  by (simp add: tensor_where_def)

lemma eps_pos: "0 < eps"
  by (simp add: eps_def)

subsection \<open>Float32 rounding of the denominator\<close>

lemma pow2_powr: "pow2 e = 2 powr of_int e"
  by (simp add: pow2_def powr_real_of_int divide_inverse)

lemma pow2_pos: "0 < pow2 e"
  by (simp add: pow2_powr)

lemma pow2_mono: "a \<le> b \<Longrightarrow> pow2 a \<le> pow2 b"
  by (simp add: pow2_powr)

lemma binade_eq:
  assumes "pow2 e \<le> \<bar>x\<bar>" and "\<bar>x\<bar> < pow2 (e + 1)"
  shows "binade x = e"
proof -
  have "0 < \<bar>x\<bar>" using assms(1) pow2_pos[of e] by linarith
  then show ?thesis
    unfolding binade_def using assms
    by (subst floor_log_eq_powr_iff) (simp_all add: pow2_powr)
qed

lemma binade_le:
  assumes "x \<noteq> 0"
  shows "pow2 (binade x) \<le> \<bar>x\<bar>"
proof -
  have "0 < \<bar>x\<bar>" using assms by simp
  then have "2 powr of_int \<lfloor>log 2 \<bar>x\<bar>\<rfloor> \<le> \<bar>x\<bar>
      \<and> \<bar>x\<bar> < 2 powr (of_int \<lfloor>log 2 \<bar>x\<bar>\<rfloor> + 1)"
    using floor_log_eq_powr_iff[of "\<bar>x\<bar>" 2 "\<lfloor>log 2 \<bar>x\<bar>\<rfloor>"] by simp
  then show ?thesis by (simp add: binade_def pow2_powr)
qed

lemma round_half_even_eq:
  assumes "\<bar>y - of_int m\<bar> < 1 / 2"
  shows "round_half_even y = m"
proof (cases "of_int m \<le> y")
  case True
  then have "\<lfloor>y\<rfloor> = m"
    using assms by (intro floor_unique) (auto simp: abs_if split: if_splits)
  then show ?thesis using assms True by (simp add: round_half_even_def Let_def)
next
  case False
  then have f: "\<lfloor>y\<rfloor> = m - 1"
    using assms by (intro floor_unique) (auto simp: abs_if split: if_splits)
  have "\<not> y - of_int (m - 1) < 1 / 2" "1 / 2 < y - of_int (m - 1)"
    using assms False by (auto simp: abs_if split: if_splits)
  then show ?thesis using f by (simp add: round_half_even_def Let_def)
qed

lemma round_half_even_ge: "\<lfloor>y\<rfloor> \<le> round_half_even y"
  by (simp add: round_half_even_def Let_def)

text \<open>The value of a rounding, from the binade of the number and its nearest significand.\<close>

lemma round_float32_eq:
  assumes "pow2 e \<le> \<bar>x\<bar>" and "\<bar>x\<bar> < pow2 (e + 1)"
    and "\<bar>x / pow2 (e - 23) - of_int m\<bar> < 1 / 2"
  shows "round_float32 x = pow2 (e - 23) * of_int m"
proof -
  have "x \<noteq> 0" using assms(1) pow2_pos[of e] by auto
  then show ?thesis
    by (simp add: round_float32_def Let_def binade_eq[OF assms(1,2)]
        round_half_even_eq[OF assms(3)])
qed

lemma round_float32_pos:
  assumes "0 < x"
  shows "0 < round_float32 x"
proof -
  let ?q = "pow2 (binade x - 23)"
  have q: "0 < ?q" by (rule pow2_pos)
  have "?q \<le> pow2 (binade x)" by (rule pow2_mono) simp
  also have "\<dots> \<le> x" using binade_le[of x] assms by simp
  finally have "1 \<le> x / ?q" using q by (simp add: field_simps)
  then have "1 \<le> \<lfloor>x / ?q\<rfloor>" by linarith
  then have "1 \<le> round_half_even (x / ?q)"
    using round_half_even_ge[of "x / ?q"] by linarith
  then have "0 < ?q * of_int (round_half_even (x / ?q))" using q by simp
  then show ?thesis using assms by (simp add: round_float32_def Let_def)
qed

lemma round_float32_nonneg: "0 \<le> x \<Longrightarrow> 0 \<le> round_float32 x"
  using round_float32_pos[of x] by (cases "x = 0") (simp_all add: round_float32_def)

text \<open>The guard as a float32 number, about \<open>1.0000000036e-15\<close>.\<close>

lemma round_float32_eps: "round_float32 eps = 9444733 / 2 ^ 73"
  using round_float32_eq[where x = eps and e = "- 50" and m = 9444733]
  by (simp add: eps_def pow2_def)

lemma relu_denominator_pos:
  assumes "lb \<le> ub"
  shows "0 < relu_denominator lb ub"
proof -
  have "0 \<le> round_float32 (ub - lb)" using assms by (simp add: round_float32_nonneg)
  moreover have "0 < round_float32 eps" by (rule round_float32_pos[OF eps_pos])
  ultimately show ?thesis
    unfolding relu_denominator_def by (intro round_float32_pos) linarith
qed

text \<open>
  A width of 4 or of 2 absorbs the guard, which is less than half the spacing of the
  float32 numbers there; a width of 0 leaves the guard alone.
\<close>

lemma relu_denominator_width_4:
  assumes "ub - lb = 4"
  shows "relu_denominator lb ub = 4"
proof -
  have a: "round_float32 4 = 4"
    using round_float32_eq[where x = 4 and e = 2 and m = 8388608] by (simp add: pow2_def)
  have "round_float32 (4 + 9444733 / 2 ^ 73) = 4"
    using round_float32_eq[where x = "4 + 9444733 / 2 ^ 73" and e = 2 and m = 8388608]
    by (simp add: pow2_def)
  then show ?thesis by (simp add: relu_denominator_def assms a round_float32_eps)
qed

lemma relu_denominator_width_2:
  assumes "ub - lb = 2"
  shows "relu_denominator lb ub = 2"
proof -
  have a: "round_float32 2 = 2"
    using round_float32_eq[where x = 2 and e = 1 and m = 8388608] by (simp add: pow2_def)
  have "round_float32 (2 + 9444733 / 2 ^ 73) = 2"
    using round_float32_eq[where x = "2 + 9444733 / 2 ^ 73" and e = 1 and m = 8388608]
    by (simp add: pow2_def)
  then show ?thesis by (simp add: relu_denominator_def assms a round_float32_eps)
qed

lemma relu_denominator_width_0: "relu_denominator x x = 9444733 / 2 ^ 73"
  using round_float32_eq[where x = "9444733 / 2 ^ 73" and e = "- 50" and m = 9444733]
  by (simp add: relu_denominator_def round_float32_eps pow2_def round_float32_def[of 0])

lemma pow2_shift: "pow2 (e + int k) = pow2 e * 2 ^ k"
  by (simp add: pow2_powr powr_add powr_realpow)

text \<open>
  Every width that is a float32 number of at least \<open>pow2 (- 25)\<close>, about \<open>3e-8\<close>, absorbs
  the guard: the sum \<open>width + 1e-15\<close> rounds back to the width.
\<close>

lemma relu_denominator_absorbed:
  assumes w: "ub - lb = pow2 (e - 23) * of_int m"
    and m: "2 ^ 23 \<le> m" "m < 2 ^ 24" and e: "- 25 \<le> e"
  shows "relu_denominator lb ub = ub - lb"
proof -
  define q where "q = pow2 (e - 23)"
  define c :: real where "c = 9444733 / 2 ^ 73"
  have q: "0 < q" by (simp add: q_def pow2_pos)
  have lo: "pow2 e = q * 2 ^ 23"
    using pow2_shift[of "e - 23" 23] by (simp add: q_def)
  have hi: "pow2 (e + 1) = q * 2 ^ 24"
    using pow2_shift[of "e - 23" 24] by (simp add: q_def add.commute)
  have "pow2 (- 48) \<le> q"
    unfolding q_def using e by (intro pow2_mono) simp
  then have q48: "1 / 2 ^ 48 \<le> q" by (simp add: pow2_def)
  have mr: "2 ^ 23 \<le> real_of_int m" "real_of_int m \<le> 2 ^ 24 - 1"
  proof -
    from m(1) have "real_of_int (2 ^ 23) \<le> real_of_int m"
      by (rule of_int_le_iff[THEN iffD2])
    then show "2 ^ 23 \<le> real_of_int m" by simp
    from m(2) have "m \<le> 2 ^ 24 - 1" by simp
    then have "real_of_int m \<le> real_of_int (2 ^ 24 - 1)"
      by (rule of_int_le_iff[THEN iffD2])
    then show "real_of_int m \<le> 2 ^ 24 - 1" by simp
  qed
  have wq: "ub - lb = q * of_int m" using w by (simp add: q_def)
  have w1: "pow2 e \<le> q * of_int m"
    using mr(1) q by (simp add: lo)
  have w2: "q * of_int m + q / 2 < pow2 (e + 1)"
  proof -
    have "q * of_int m + q / 2 \<le> q * (2 ^ 24 - 1) + q / 2"
      using mr(2) q by (simp add: mult_left_mono)
    also have "\<dots> < q * 2 ^ 24" using q by (simp add: algebra_simps)
    finally show ?thesis by (simp add: hi)
  qed
  have cq: "0 < c" "c < q / 2"
    using q48 by (simp_all add: c_def)
  have r1: "round_float32 (q * of_int m) = q * of_int m"
  proof -
    have "round_float32 (q * of_int m) = pow2 (e - 23) * of_int m"
    proof (rule round_float32_eq)
      show "pow2 e \<le> \<bar>q * of_int m\<bar>" using w1 pow2_pos[of e] by simp
      show "\<bar>q * of_int m\<bar> < pow2 (e + 1)" using w1 w2 q pow2_pos[of e] by simp
      show "\<bar>q * of_int m / pow2 (e - 23) - of_int m\<bar> < 1 / 2"
        using q by (simp add: q_def[symmetric])
    qed
    then show ?thesis by (simp add: q_def)
  qed
  have r2: "round_float32 (q * of_int m + c) = q * of_int m"
  proof -
    have "round_float32 (q * of_int m + c) = pow2 (e - 23) * of_int m"
    proof (rule round_float32_eq)
      show "pow2 e \<le> \<bar>q * of_int m + c\<bar>" using w1 cq pow2_pos[of e] by simp
      show "\<bar>q * of_int m + c\<bar> < pow2 (e + 1)" using w1 w2 cq pow2_pos[of e] by simp
      have "(q * of_int m + c) / q - of_int m = c / q"
        using q by (simp add: field_simps)
      moreover have "0 < c / q" "c / q < 1 / 2"
        using cq q by (simp_all add: field_simps)
      ultimately show "\<bar>(q * of_int m + c) / pow2 (e - 23) - of_int m\<bar> < 1 / 2"
        by (simp add: q_def[symmetric])
    qed
    then show ?thesis by (simp add: q_def)
  qed
  show ?thesis
    unfolding relu_denominator_def round_float32_eps wq r1 using r2 by (simp add: c_def)
qed

text \<open>The width \<open>pow2 (- 60)\<close> does not: the sum is about \<open>1.0009e-15\<close>.\<close>

lemma relu_denominator_tiny:
  assumes "ub - lb = 1 / 2 ^ 60"
  shows "relu_denominator lb ub = 9452925 / 2 ^ 73"
proof -
  have a: "round_float32 (1 / 2 ^ 60) = 1 / 2 ^ 60"
    using round_float32_eq[where x = "1 / 2 ^ 60" and e = "- 60" and m = 8388608]
    by (simp add: pow2_def)
  have b: "round_float32 (1 / 2 ^ 60 + 9444733 / 2 ^ 73) = 9452925 / 2 ^ 73"
    using round_float32_eq[where x = "1 / 2 ^ 60 + 9444733 / 2 ^ 73" and e = "- 50"
        and m = 9452925]
    by (simp add: pow2_def)
  show ?thesis
    unfolding relu_denominator_def assms a round_float32_eps by (rule b)
qed

subsection \<open>The entries of the relaxation\<close>

lemma relu_entries_lengths:
  assumes "length lb = length ub"
  shows "length (lambda_u_entries (fst (relu_entries (lb, ub) it dp_lambda))) = length lb"
    and "length (mu_u_entries (fst (relu_entries (lb, ub) it dp_lambda))) = length lb"
    and "length (mu_l_entries (fst (relu_entries (lb, ub) it dp_lambda))) = length lb"
  using assms
  by (simp_all add: relu_entries_def Let_def length_tensor_where zeros_like_def ones_like_def)

lemma relu_entries_lambda_u:
  assumes "length lb = length ub" and "i < length lb"
  shows "lambda_u_entries (fst (relu_entries (lb, ub) it dp_lambda)) ! i =
           (if lb ! i > 0 then Some 1 else if ub ! i < 0 then Some 0
            else tensor_div (ub ! i) (relu_denominator (lb ! i) (ub ! i)))"
  using assms
  by (simp add: relu_entries_def Let_def length_tensor_where nth_tensor_where
      zeros_like_def ones_like_def)

lemma relu_entries_mu_u:
  assumes "length lb = length ub" and "i < length lb"
  shows "mu_u_entries (fst (relu_entries (lb, ub) it dp_lambda)) ! i =
           (if lb ! i < 0 \<and> ub ! i > 0
            then tensor_div (- ub ! i * lb ! i) (relu_denominator (lb ! i) (ub ! i))
            else Some 0)"
  using assms
  by (simp add: relu_entries_def Let_def length_tensor_where nth_tensor_where
      zeros_like_def ones_like_def)

text \<open>
  No entry of the upper slopes and offsets is inf or nan: where a division is selected the
  bounds satisfy \<open>lb \<le> ub\<close>, and the denominator is positive there.
\<close>

lemma relu_entries_finite:
  assumes "length lb = length ub" and "i < length lb"
  shows "lambda_u_entries (fst (relu_entries (lb, ub) it dp_lambda)) ! i =
           Some (if lb ! i > 0 then 1 else if ub ! i < 0 then 0
                 else ub ! i / relu_denominator (lb ! i) (ub ! i))"
    and "mu_u_entries (fst (relu_entries (lb, ub) it dp_lambda)) ! i =
           Some (if lb ! i < 0 \<and> ub ! i > 0
                 then - ub ! i * lb ! i / relu_denominator (lb ! i) (ub ! i) else 0)"
proof -
  have p: "lb ! i \<le> ub ! i \<Longrightarrow> relu_denominator (lb ! i) (ub ! i) \<noteq> 0"
    using relu_denominator_pos[of "lb ! i" "ub ! i"] by simp
  show "lambda_u_entries (fst (relu_entries (lb, ub) it dp_lambda)) ! i =
           Some (if lb ! i > 0 then 1 else if ub ! i < 0 then 0
                 else ub ! i / relu_denominator (lb ! i) (ub ! i))"
    using p by (simp add: relu_entries_lambda_u[OF assms] tensor_div_def)
  show "mu_u_entries (fst (relu_entries (lb, ub) it dp_lambda)) ! i =
           Some (if lb ! i < 0 \<and> ub ! i > 0
                 then - ub ! i * lb ! i / relu_denominator (lb ! i) (ub ! i) else 0)"
    using p by (simp add: relu_entries_mu_u[OF assms] tensor_div_def)
qed

lemma relu_relaxation_lengths:
  assumes "length lb = length ub"
    and "case dp_lambda of None \<Rightarrow> True | Some p \<Rightarrow> it = 0 \<or> length p = length lb"
  shows "length (lambda_l (fst (relu_relaxation (lb, ub) it dp_lambda))) = length lb"
    and "length (lambda_u (fst (relu_relaxation (lb, ub) it dp_lambda))) = length lb"
    and "length (mu_l (fst (relu_relaxation (lb, ub) it dp_lambda))) = length lb"
    and "length (mu_u (fst (relu_relaxation (lb, ub) it dp_lambda))) = length lb"
  using assms
  by (auto simp: relu_relaxation_def relu_entries_def Let_def length_tensor_where
      zeros_like_def ones_like_def split: option.splits)

lemma relu_relaxation_entries:
  "lambda_u (fst (relu_relaxation bnds it dp_lambda))
     = map the (lambda_u_entries (fst (relu_entries bnds it dp_lambda)))"
  "mu_u (fst (relu_relaxation bnds it dp_lambda))
     = map the (mu_u_entries (fst (relu_entries bnds it dp_lambda)))"
  "mu_l (fst (relu_relaxation bnds it dp_lambda))
     = mu_l_entries (fst (relu_entries bnds it dp_lambda))"
  "lambda_l (fst (relu_relaxation bnds it dp_lambda))
     = lambda_l_entries (fst (relu_entries bnds it dp_lambda))"
  by (simp_all add: relu_relaxation_def split_beta)

lemma relu_relaxation_lambda_u:
  assumes "length lb = length ub" and "i < length lb"
  shows "lambda_u (fst (relu_relaxation (lb, ub) it dp_lambda)) ! i =
           (if lb ! i > 0 then 1 else if ub ! i < 0 then 0
            else ub ! i / relu_denominator (lb ! i) (ub ! i))"
  using assms
  by (simp add: relu_relaxation_entries relu_entries_lengths relu_entries_finite)

lemma relu_relaxation_mu:
  assumes "length lb = length ub" and "i < length lb"
  shows "mu_u (fst (relu_relaxation (lb, ub) it dp_lambda)) ! i =
           (if lb ! i < 0 \<and> ub ! i > 0
            then - ub ! i * lb ! i / relu_denominator (lb ! i) (ub ! i) else 0)"
    and "mu_l (fst (relu_relaxation (lb, ub) it dp_lambda)) ! i = 0"
  using assms
  by (simp_all add: relu_relaxation_entries relu_entries_lengths relu_entries_finite)
    (simp add: relu_entries_def Let_def zeros_like_def)

lemma relu_relaxation_lambda_l:
  assumes "length lb = length ub" and "i < length lb"
    and "case dp_lambda of None \<Rightarrow> True | Some p \<Rightarrow> it = 0 \<or> length p = length lb"
  shows "lambda_l (fst (relu_relaxation (lb, ub) it dp_lambda)) ! i =
           (if lb ! i > 0 then 1 else if ub ! i < 0 then 0
            else case dp_lambda of
                   None \<Rightarrow> (if ub ! i < - lb ! i then 0 else 1)
                 | Some p \<Rightarrow> if it = 0 then (if ub ! i < - lb ! i then 0 else 1) else p ! i)"
  using assms
  by (auto simp: relu_relaxation_entries relu_entries_def Let_def length_tensor_where
      nth_tensor_where zeros_like_def ones_like_def split: option.splits)

lemma length_vadd: "length (vadd a b) = min (length a) (length b)"
  by (simp add: vadd_def)

lemma length_vmul: "length (vmul a b) = min (length a) (length b)"
  by (simp add: vmul_def)

lemma nth_vadd: "i < length a \<Longrightarrow> i < length b \<Longrightarrow> vadd a b ! i = a ! i + b ! i"
  by (simp add: vadd_def)

lemma nth_vmul: "i < length a \<Longrightarrow> i < length b \<Longrightarrow> vmul a b ! i = a ! i * b ! i"
  by (simp add: vmul_def)

lemma sum_list_nth_sum: "sum_list (xs :: real list) = (\<Sum>i<length xs. xs ! i)"
  by (simp add: sum_list_sum_nth atLeast0LessThan)

lemma dp_relu_coef:
  assumes "t < length (x_l_coef self)" and "t < length (x_u_coef self)"
    and "i < length (x_l_coef self ! t)" and "i < length (x_u_coef self ! t)"
    and "i < length (lambda_l (fst (relu_relaxation bnds it dp_lambda)))"
    and "i < length (lambda_u (fst (relu_relaxation bnds it dp_lambda)))"
  shows "x_l_coef (fst (dp_relu self bnds it dp_lambda)) ! t ! i =
           pos_part (x_l_coef self ! t ! i) * lambda_l (fst (relu_relaxation bnds it dp_lambda)) ! i
         + neg_part (x_l_coef self ! t ! i) * lambda_u (fst (relu_relaxation bnds it dp_lambda)) ! i"
    and "x_u_coef (fst (dp_relu self bnds it dp_lambda)) ! t ! i =
           pos_part (x_u_coef self ! t ! i) * lambda_u (fst (relu_relaxation bnds it dp_lambda)) ! i
         + neg_part (x_u_coef self ! t ! i) * lambda_l (fst (relu_relaxation bnds it dp_lambda)) ! i"
  using assms
  by (simp_all add: dp_relu_def get_neg_pos_comp_def Let_def split_beta nth_vadd nth_vmul
      length_vmul)

lemma sum_list_pair:
  assumes "length p = n" "length q = n" "length a = n" "length b = n"
  shows "sum_list (vadd (vmul p a) (vmul q b)) = (\<Sum>i<n. p ! i * a ! i + q ! i * b ! i)"
proof -
  have "sum_list (vadd (vmul p a) (vmul q b))
          = (\<Sum>i<length (vadd (vmul p a) (vmul q b)). vadd (vmul p a) (vmul q b) ! i)"
    by (rule sum_list_nth_sum)
  also have "\<dots> = (\<Sum>i<n. p ! i * a ! i + q ! i * b ! i)"
    using assms by (intro sum.cong) (auto simp: length_vadd length_vmul nth_vadd nth_vmul)
  finally show ?thesis .
qed

lemma dp_relu_bias:
  assumes "t < length (x_l_coef self)" and "t < length (x_u_coef self)"
    and "t < length (x_l_bias self)" and "t < length (x_u_bias self)"
    and "length (x_l_coef self ! t) = n" and "length (x_u_coef self ! t) = n"
    and "length (fst bnds) = n" and "length (snd bnds) = n"
    and "case dp_lambda of None \<Rightarrow> True | Some p \<Rightarrow> it = 0 \<or> length p = n"
  shows "x_l_bias (fst (dp_relu self bnds it dp_lambda)) ! t = x_l_bias self ! t +
           (\<Sum>i<n. pos_part (x_l_coef self ! t ! i) * mu_l (fst (relu_relaxation bnds it dp_lambda)) ! i
                 + neg_part (x_l_coef self ! t ! i) * mu_u (fst (relu_relaxation bnds it dp_lambda)) ! i)"
    and "x_u_bias (fst (dp_relu self bnds it dp_lambda)) ! t = x_u_bias self ! t +
           (\<Sum>i<n. pos_part (x_u_coef self ! t ! i) * mu_u (fst (relu_relaxation bnds it dp_lambda)) ! i
                 + neg_part (x_u_coef self ! t ! i) * mu_l (fst (relu_relaxation bnds it dp_lambda)) ! i)"
proof -
  obtain lb ub where b: "bnds = (lb, ub)" by (cases bnds)
  have len: "length lb = length ub" "length lb = n" using assms b by auto
  have dl: "case dp_lambda of None \<Rightarrow> True | Some p \<Rightarrow> it = 0 \<or> length p = length lb"
    using assms(9) len by (auto split: option.splits)
  note L = relu_relaxation_lengths[OF len(1) dl, folded b, unfolded len(2)]
  have 1: "sum_list (vadd (vmul (map pos_part (x_l_coef self ! t)) (mu_l (fst (relu_relaxation bnds it dp_lambda))))
              (vmul (map neg_part (x_l_coef self ! t)) (mu_u (fst (relu_relaxation bnds it dp_lambda)))))
         = (\<Sum>i<n. pos_part (x_l_coef self ! t ! i) * mu_l (fst (relu_relaxation bnds it dp_lambda)) ! i
                 + neg_part (x_l_coef self ! t ! i) * mu_u (fst (relu_relaxation bnds it dp_lambda)) ! i)"
    using assms(5) L by (subst sum_list_pair[where n = n]) auto
  have 2: "sum_list (vadd (vmul (map pos_part (x_u_coef self ! t)) (mu_u (fst (relu_relaxation bnds it dp_lambda))))
              (vmul (map neg_part (x_u_coef self ! t)) (mu_l (fst (relu_relaxation bnds it dp_lambda)))))
         = (\<Sum>i<n. pos_part (x_u_coef self ! t ! i) * mu_u (fst (relu_relaxation bnds it dp_lambda)) ! i
                 + neg_part (x_u_coef self ! t ! i) * mu_l (fst (relu_relaxation bnds it dp_lambda)) ! i)"
    using assms(6) L by (subst sum_list_pair[where n = n]) auto
  show "x_l_bias (fst (dp_relu self bnds it dp_lambda)) ! t = x_l_bias self ! t +
           (\<Sum>i<n. pos_part (x_l_coef self ! t ! i) * mu_l (fst (relu_relaxation bnds it dp_lambda)) ! i
                 + neg_part (x_l_coef self ! t ! i) * mu_u (fst (relu_relaxation bnds it dp_lambda)) ! i)"
    using assms(1,3) 1
    by (simp add: dp_relu_def get_neg_pos_comp_def Let_def split_beta nth_vadd)
  show "x_u_bias (fst (dp_relu self bnds it dp_lambda)) ! t = x_u_bias self ! t +
           (\<Sum>i<n. pos_part (x_u_coef self ! t ! i) * mu_u (fst (relu_relaxation bnds it dp_lambda)) ! i
                 + neg_part (x_u_coef self ! t ! i) * mu_l (fst (relu_relaxation bnds it dp_lambda)) ! i)"
    using assms(2,4) 2
    by (simp add: dp_relu_def get_neg_pos_comp_def Let_def split_beta nth_vadd)
qed

text \<open>
  C10. Called with \<^verbatim>\<open>expr_coef = None\<close> and at least one of \<^verbatim>\<open>x_l_coef\<close>, \<^verbatim>\<open>x_u_coef\<close>
  equal to \<^verbatim>\<open>None\<close>, the constructor returns without an error and leaves an object on
  which none of \<^verbatim>\<open>device\<close>, \<^verbatim>\<open>x_l_coef\<close>, \<^verbatim>\<open>x_u_coef\<close>, \<^verbatim>\<open>x_l_bias\<close>, \<^verbatim>\<open>x_u_bias\<close> is set,
  so that it is not a relation.
\<close>

theorem init_without_coefficients:
  assumes "expr_coef = None" and "xl = None \<or> xu = None"
  shows "DeepPoly_init xl xu bl bu expr_coef = Inr Map.empty
       \<and> (\<forall>obj. DeepPoly_init xl xu bl bu expr_coef = Inr obj \<longrightarrow>
             obj A_device = None \<and> obj A_x_l_coef = None \<and> obj A_x_u_coef = None
           \<and> obj A_x_l_bias = None \<and> obj A_x_u_bias = None \<and> as_relation obj = None)"
  using assms by (auto simp: DeepPoly_init_def as_relation_def)

theorem init_without_coefficients_witness:
  "DeepPoly_init (Some [[1]]) None (Some [2]) None None = Inr Map.empty"
  using init_without_coefficients [of None "Some [[1]]" None "Some [2]" None] by simp

lemmas relu_eval =
  relu_relaxation_def relu_entries_def Let_def tensor_where_def zeros_like_def ones_like_def
  tensor_div_def relu_denominator_width_4 relu_denominator_width_2 relu_denominator_width_0

text \<open>
  C2, as amended. For a neuron with \<open>lb < 0 < ub\<close>, \<^verbatim>\<open>dp_relu\<close> uses the upper slope
  \<open>ub / (ub - lb + \<epsilon>)\<close> and the upper offset \<open>- ub * lb / (ub - lb + \<epsilon>)\<close> with
  \<open>\<epsilon> = 1e-15\<close>, the sum being the float32 sum of the source, and the lower offset 0,
  whatever learned slope is supplied. The lower slope is 1 if \<open>ub \<ge> - lb\<close> and 0 otherwise
  when no learned slope is in effect (\<^verbatim>\<open>dp_lambda\<close> is \<^verbatim>\<open>None\<close>, or \<^verbatim>\<open>it == 0\<close> so that
  the parameter is overwritten), and the learned slope otherwise. In particular for
  \<open>lb = -1\<close>, \<open>ub = 3\<close> and no learned slope in effect, the upper slope equals \<open>3 / 4\<close>,
  the upper offset equals \<open>0.75\<close>, and the lower slope equals 1 with offset 0.
\<close>

theorem relu_unstable_relaxation:
  "(length lb = length ub \<and> i < length lb \<and> lb ! i < 0 \<and> 0 < ub ! i
      \<and> (case dp_lambda of None \<Rightarrow> True | Some p \<Rightarrow> it = 0 \<or> length p = length lb) \<longrightarrow>
     (let r = fst (relu_relaxation (lb, ub) it dp_lambda)
      in lambda_u r ! i = ub ! i / relu_denominator (lb ! i) (ub ! i)
       \<and> mu_u r ! i = - ub ! i * lb ! i / relu_denominator (lb ! i) (ub ! i)
       \<and> relu_denominator (lb ! i) (ub ! i) =
           round_float32 (round_float32 (ub ! i - lb ! i) + round_float32 (1 / 10 ^ 15))
       \<and> mu_l r ! i = 0
       \<and> (dp_lambda = None \<or> it = 0 \<longrightarrow>
            lambda_l r ! i = (if ub ! i \<ge> - lb ! i then 1 else 0))
       \<and> (\<forall>p. dp_lambda = Some p \<and> it \<noteq> 0 \<longrightarrow> lambda_l r ! i = p ! i)))
   \<and> (dp_lambda = None \<or> it = 0 \<longrightarrow>
       (let r = fst (relu_relaxation ([- 1], [3]) it dp_lambda)
        in lambda_u r = [3 / 4] \<and> mu_u r = [0.75] \<and> lambda_l r = [1] \<and> mu_l r = [0]))"
proof (intro conjI impI)
  assume a: "length lb = length ub \<and> i < length lb \<and> lb ! i < 0 \<and> 0 < ub ! i
      \<and> (case dp_lambda of None \<Rightarrow> True | Some p \<Rightarrow> it = 0 \<or> length p = length lb)"
  then have dl: "case dp_lambda of None \<Rightarrow> True | Some p \<Rightarrow> it = 0 \<or> length p = length lb"
    by simp
  from a have len: "length lb = length ub" and i: "i < length lb" by auto
  show "let r = fst (relu_relaxation (lb, ub) it dp_lambda)
      in lambda_u r ! i = ub ! i / relu_denominator (lb ! i) (ub ! i)
       \<and> mu_u r ! i = - ub ! i * lb ! i / relu_denominator (lb ! i) (ub ! i)
       \<and> relu_denominator (lb ! i) (ub ! i) =
           round_float32 (round_float32 (ub ! i - lb ! i) + round_float32 (1 / 10 ^ 15))
       \<and> mu_l r ! i = 0
       \<and> (dp_lambda = None \<or> it = 0 \<longrightarrow>
            lambda_l r ! i = (if ub ! i \<ge> - lb ! i then 1 else 0))
       \<and> (\<forall>p. dp_lambda = Some p \<and> it \<noteq> 0 \<longrightarrow> lambda_l r ! i = p ! i)"
    using a relu_relaxation_lambda_l[OF len i dl]
    by (auto simp: Let_def relu_relaxation_lambda_u[OF len i] relu_relaxation_mu[OF len i]
        relu_denominator_def eps_def split: option.splits)
next
  assume "dp_lambda = None \<or> it = 0"
  then show "let r = fst (relu_relaxation ([- 1], [3]) it dp_lambda)
      in lambda_u r = [3 / 4] \<and> mu_u r = [0.75] \<and> lambda_l r = [1] \<and> mu_l r = [0]"
    by (cases dp_lambda) (auto simp: relu_eval)
qed

theorem relu_unstable_relaxation_witness:
  "(let r = fst (relu_relaxation ([- 3, 1], [1, 5]) 0 (Some [7, 7]))
    in lambda_u r ! 0 = 1 / 4 \<and> mu_u r ! 0 = 3 / 4 \<and> lambda_l r ! 0 = 0 \<and> mu_l r ! 0 = 0)
   \<and> (let r = fst (relu_relaxation ([- 1, 1], [1, 5]) 2 (Some [1 / 3, 7]))
      in lambda_u r ! 0 = 1 / 2 \<and> mu_u r ! 0 = 1 / 2 \<and> lambda_l r ! 0 = 1 / 3)
   \<and> (let r = fst (relu_relaxation ([- 1], [3]) 5 None)
      in lambda_u r = [3 / 4] \<and> mu_u r = [0.75] \<and> lambda_l r = [1] \<and> mu_l r = [0])"
  using relu_unstable_relaxation [where lb = "[- 3, 1]" and ub = "[1, 5]" and i = 0
      and dp_lambda = "Some [7, 7]" and it = 0]
    relu_unstable_relaxation [where lb = "[- 1, 1]" and ub = "[1, 5]" and i = 0
      and dp_lambda = "Some [1 / 3, 7]" and it = 2]
    relu_unstable_relaxation [where lb = "[]" and ub = "[]" and i = 0
      and dp_lambda = None and it = 5]
  by (simp add: Let_def relu_denominator_width_4 relu_denominator_width_2)

text \<open>
  C2 as stated fails when a learned slope is in effect: with the learned slope \<open>1 / 2\<close>
  supplied at \<^verbatim>\<open>it = 1\<close>, the lower slope of the unstable neuron \<open>[-1, 3]\<close> is \<open>1 / 2\<close>, where
  the claim says 1 since \<open>3 \<ge> 1\<close>.
\<close>

theorem relu_unstable_relaxation_counterexample:
  "lambda_l (fst (relu_relaxation ([- 1], [3]) 1 (Some [1 / 2]))) ! 0 = 1 / 2
   \<and> (1 / 2 :: real) \<noteq> (if (3 :: real) \<ge> - (- 1) then 1 else 0)"
  by (simp add: relu_eval)

text \<open>
  C3, as amended. \<^verbatim>\<open>dp_relu\<close> is the identity on a neuron (both slopes 1, both offsets
  0, every coefficient of the neuron kept, whatever its sign) when the cached lower bound
  is strictly positive, whatever learned slope is supplied, and when \<open>lb = 0 < ub\<close>,
  no learned slope is in effect (\<^verbatim>\<open>dp_lambda\<close> is \<^verbatim>\<open>None\<close>, or \<^verbatim>\<open>it == 0\<close>) and the width
  absorbs the guard (the float32 sum \<open>ub - lb + 1e-15\<close> is \<open>ub - lb\<close>, as for every float32
  width of at least \<open>pow2 (- 25)\<close>). It forces the contribution of a neuron to zero (both
  slopes and both offsets 0, every coefficient of the neuron 0, whatever its sign) when
  the cached upper bound is strictly negative (and not below the lower bound), whatever
  learned slope is supplied, and when \<open>lb < 0 = ub\<close> and no learned slope is in effect. So
  a learned slope is forced to 0 when \<open>ub < 0\<close> and to 1 when \<open>lb > 0\<close>.
\<close>

theorem relu_stable_neurons:
  assumes "length lb = length ub" and "i < length lb"
    and "case dp_lambda of None \<Rightarrow> True | Some p \<Rightarrow> it = 0 \<or> length p = length lb"
    and "t < length (x_l_coef self)" and "t < length (x_u_coef self)"
    and "length (x_l_coef self ! t) = length lb" and "length (x_u_coef self ! t) = length lb"
  shows "let r = fst (relu_relaxation (lb, ub) it dp_lambda);
             d = fst (dp_relu self (lb, ub) it dp_lambda)
         in (lb ! i > 0
              \<or> (lb ! i = 0 \<and> 0 < ub ! i \<and> (dp_lambda = None \<or> it = 0)
                  \<and> relu_denominator (lb ! i) (ub ! i) = ub ! i - lb ! i) \<longrightarrow>
               lambda_l r ! i = 1 \<and> lambda_u r ! i = 1 \<and> mu_l r ! i = 0 \<and> mu_u r ! i = 0
             \<and> x_l_coef d ! t ! i = x_l_coef self ! t ! i
             \<and> x_u_coef d ! t ! i = x_u_coef self ! t ! i)
          \<and> ((lb ! i \<le> ub ! i \<and> ub ! i < 0)
              \<or> (lb ! i < 0 \<and> ub ! i = 0 \<and> (dp_lambda = None \<or> it = 0)) \<longrightarrow>
               lambda_l r ! i = 0 \<and> lambda_u r ! i = 0 \<and> mu_l r ! i = 0 \<and> mu_u r ! i = 0
             \<and> x_l_coef d ! t ! i = 0 \<and> x_u_coef d ! t ! i = 0)"
proof -
  note L = relu_relaxation_lengths[OF assms(1,3)]
  have c: "x_l_coef (fst (dp_relu self (lb, ub) it dp_lambda)) ! t ! i =
           pos_part (x_l_coef self ! t ! i) * lambda_l (fst (relu_relaxation (lb, ub) it dp_lambda)) ! i
         + neg_part (x_l_coef self ! t ! i) * lambda_u (fst (relu_relaxation (lb, ub) it dp_lambda)) ! i"
    "x_u_coef (fst (dp_relu self (lb, ub) it dp_lambda)) ! t ! i =
           pos_part (x_u_coef self ! t ! i) * lambda_u (fst (relu_relaxation (lb, ub) it dp_lambda)) ! i
         + neg_part (x_u_coef self ! t ! i) * lambda_l (fst (relu_relaxation (lb, ub) it dp_lambda)) ! i"
    using assms L by (simp_all add: dp_relu_coef)
  have pn: "\<And>c :: real. pos_part c + neg_part c = c"
    by (simp add: pos_part_def neg_part_def)
  show ?thesis
    unfolding Let_def c
    by (auto simp: relu_relaxation_lambda_u[OF assms(1,2)] relu_relaxation_mu[OF assms(1,2)]
        relu_relaxation_lambda_l[OF assms(1,2,3)] pn split: option.splits)
qed

theorem relu_stable_neurons_witness:
  "(let r = fst (relu_relaxation ([2, - 3], [4, - 1]) 1 (Some [1 / 2, 1 / 2]));
        d = fst (dp_relu \<lparr>x_l_coef = [[- 5, 6]], x_u_coef = [[7, - 8]], x_l_bias = [0],
                         x_u_bias = [0]\<rparr> ([2, - 3], [4, - 1]) 1 (Some [1 / 2, 1 / 2]))
    in lambda_l r = [1, 0] \<and> lambda_u r = [1, 0] \<and> x_l_coef d = [[- 5, 0]]
     \<and> x_u_coef d = [[7, 0]])
   \<and> (let r = fst (relu_relaxation ([- 3, 0], [0, 2]) 1 None);
          d = fst (dp_relu \<lparr>x_l_coef = [[- 5, 6]], x_u_coef = [[7, - 8]], x_l_bias = [0],
                           x_u_bias = [0]\<rparr> ([- 3, 0], [0, 2]) 1 None)
      in lambda_l r ! 0 = 0 \<and> lambda_u r ! 0 = 0 \<and> mu_u r ! 0 = 0
       \<and> x_l_coef d ! 0 ! 0 = 0 \<and> x_u_coef d ! 0 ! 0 = 0
       \<and> lambda_l r ! 1 = 1 \<and> lambda_u r ! 1 = 1 \<and> mu_u r ! 1 = 0
       \<and> x_l_coef d ! 0 ! 1 = 6 \<and> x_u_coef d ! 0 ! 1 = - 8)"
proof -
  let ?s = "\<lparr>x_l_coef = [[- 5, 6]], x_u_coef = [[7, - 8]], x_l_bias = [0], x_u_bias = [0::real]\<rparr>"
  have 0: "let r = fst (relu_relaxation ([2, - 3], [4, - 1]) 1 (Some [1 / 2, 1 / 2]));
             d = fst (dp_relu ?s ([2, - 3], [4, - 1]) 1 (Some [1 / 2, 1 / 2]))
         in lambda_l r ! 0 = 1 \<and> lambda_u r ! 0 = 1 \<and> x_l_coef d ! 0 ! 0 = - 5"
    using relu_stable_neurons [where lb = "[2, - 3]" and ub = "[4, - 1]" and i = 0
        and dp_lambda = "Some [1 / 2, 1 / 2]" and it = 1 and t = 0 and self = ?s]
    by (simp add: Let_def)
  have 1: "let r = fst (relu_relaxation ([2, - 3], [4, - 1]) 1 (Some [1 / 2, 1 / 2]));
             d = fst (dp_relu ?s ([2, - 3], [4, - 1]) 1 (Some [1 / 2, 1 / 2]))
         in lambda_l r ! 1 = 0 \<and> lambda_u r ! 1 = 0 \<and> x_u_coef d ! 0 ! 1 = 0"
    using relu_stable_neurons [where lb = "[2, - 3]" and ub = "[4, - 1]" and i = 1
        and dp_lambda = "Some [1 / 2, 1 / 2]" and it = 1 and t = 0 and self = ?s]
    by (simp add: Let_def)
  have 2: "let r = fst (relu_relaxation ([- 3, 0], [0, 2]) 1 None);
          d = fst (dp_relu ?s ([- 3, 0], [0, 2]) 1 None)
      in lambda_l r ! 0 = 0 \<and> lambda_u r ! 0 = 0 \<and> mu_u r ! 0 = 0
       \<and> x_l_coef d ! 0 ! 0 = 0 \<and> x_u_coef d ! 0 ! 0 = 0"
    using relu_stable_neurons [where lb = "[- 3, 0]" and ub = "[0, 2]" and i = 0
        and dp_lambda = None and it = 1 and t = 0 and self = ?s]
    by (simp add: Let_def)
  have 3: "let r = fst (relu_relaxation ([- 3, 0], [0, 2]) 1 None);
          d = fst (dp_relu ?s ([- 3, 0], [0, 2]) 1 None)
      in lambda_l r ! 1 = 1 \<and> lambda_u r ! 1 = 1 \<and> mu_u r ! 1 = 0
       \<and> x_l_coef d ! 0 ! 1 = 6 \<and> x_u_coef d ! 0 ! 1 = - 8"
    using relu_stable_neurons [where lb = "[- 3, 0]" and ub = "[0, 2]" and i = 1
        and dp_lambda = None and it = 1 and t = 0 and self = ?s]
    by (simp add: Let_def relu_denominator_width_2)
  have 4: "relu_relaxation ([2, - 3], [4, - 1]) 1 (Some [1 / 2, 1 / 2])
      = (\<lparr>lambda_l = [1, 0], lambda_u = [1, 0], mu_l = [0, 0], mu_u = [0, 0]\<rparr>,
         Some [1 / 2, 1 / 2])"
    by (simp add: relu_relaxation_def relu_entries_def Let_def tensor_where_def zeros_like_def
        ones_like_def)
  show ?thesis
    using 0 1 2 3
    by (simp add: 4 dp_relu_def Let_def get_neg_pos_comp_def vadd_def vmul_def
        pos_part_def neg_part_def)
qed

text \<open>
  C3 as stated fails on the boundary. For the bounds \<open>[0, 0]\<close>, entirely \<open>\<ge> 0\<close> and
  entirely \<open>\<le> 0\<close>, the upper slope is 0 and the lower slope is 1, so the neuron is neither
  the identity nor zero. A learned slope of \<open>1 / 2\<close> supplied at \<^verbatim>\<open>it = 1\<close> stays the lower
  slope for \<open>[-1, 0]\<close>, entirely \<open>\<le> 0\<close>, and for \<open>[0, 2]\<close>, entirely \<open>\<ge> 0\<close>. For
  \<open>[0, pow2 (- 60)]\<close>, entirely \<open>\<ge> 0\<close>, the guard is not absorbed and the upper slope is
  \<open>8192 / 9452925\<close>, less than \<open>0.001\<close>.
\<close>

theorem relu_stable_neurons_counterexample:
  "lambda_u (fst (relu_relaxation ([0], [0]) 0 None)) ! 0 = 0
   \<and> lambda_l (fst (relu_relaxation ([0], [0]) 0 None)) ! 0 = 1
   \<and> lambda_l (fst (relu_relaxation ([- 1], [0]) 1 (Some [1 / 2]))) ! 0 = 1 / 2
   \<and> lambda_l (fst (relu_relaxation ([0], [2]) 1 (Some [1 / 2]))) ! 0 = 1 / 2
   \<and> lambda_u (fst (relu_relaxation ([0], [1 / 2 ^ 60]) 0 None)) ! 0 = 8192 / 9452925"
  by (simp add: relu_eval relu_denominator_tiny)

text \<open>
  C4. For every relation and every pair of bounds of matching shape, \<^verbatim>\<open>dp_relu\<close> returns
  the lower coefficient positive part times lower slope plus negative part times upper
  slope, the upper coefficient positive part times upper slope plus negative part times
  lower slope, where the parts are those of \<^verbatim>\<open>get_neg_pos_comp\<close>; the offsets are paired
  in the same way, summed over the neurons and added to the running biases.
\<close>

theorem relu_sign_split:
  assumes "t < length (x_l_coef self)" and "t < length (x_u_coef self)"
    and "t < length (x_l_bias self)" and "t < length (x_u_bias self)"
    and "length (x_l_coef self ! t) = n" and "length (x_u_coef self ! t) = n"
    and "length (fst bnds) = n" and "length (snd bnds) = n"
    and "case dp_lambda of None \<Rightarrow> True | Some p \<Rightarrow> it = 0 \<or> length p = n"
  shows "let r = fst (relu_relaxation bnds it dp_lambda);
             d = fst (dp_relu self bnds it dp_lambda);
             neg_l = fst (get_neg_pos_comp (x_l_coef self)) ! t;
             pos_l = snd (get_neg_pos_comp (x_l_coef self)) ! t;
             neg_u = fst (get_neg_pos_comp (x_u_coef self)) ! t;
             pos_u = snd (get_neg_pos_comp (x_u_coef self)) ! t
         in (\<forall>i<n. x_l_coef d ! t ! i = pos_l ! i * lambda_l r ! i + neg_l ! i * lambda_u r ! i)
          \<and> (\<forall>i<n. x_u_coef d ! t ! i = pos_u ! i * lambda_u r ! i + neg_u ! i * lambda_l r ! i)
          \<and> x_l_bias d ! t =
              x_l_bias self ! t + (\<Sum>i<n. pos_l ! i * mu_l r ! i + neg_l ! i * mu_u r ! i)
          \<and> x_u_bias d ! t =
              x_u_bias self ! t + (\<Sum>i<n. pos_u ! i * mu_u r ! i + neg_u ! i * mu_l r ! i)
          \<and> length (x_l_coef d) = length (x_l_coef self)
          \<and> length (x_u_coef d) = length (x_u_coef self)
          \<and> length (x_l_coef d ! t) = n \<and> length (x_u_coef d ! t) = n"
proof -
  obtain lb ub where b: "bnds = (lb, ub)" by (cases bnds)
  have len: "length lb = length ub" "length lb = n" using assms b by auto
  have dl: "case dp_lambda of None \<Rightarrow> True | Some p \<Rightarrow> it = 0 \<or> length p = length lb"
    using assms(9) len by (auto split: option.splits)
  note L = relu_relaxation_lengths[OF len(1) dl, folded b, unfolded len(2)]
  have lens: "length (x_l_coef (fst (dp_relu self bnds it dp_lambda))) = length (x_l_coef self)"
    "length (x_u_coef (fst (dp_relu self bnds it dp_lambda))) = length (x_u_coef self)"
    "length (x_l_coef (fst (dp_relu self bnds it dp_lambda)) ! t) = n"
    "length (x_u_coef (fst (dp_relu self bnds it dp_lambda)) ! t) = n"
    using assms(1,2,5,6) L
    by (simp_all add: dp_relu_def get_neg_pos_comp_def Let_def split_beta length_vadd
        length_vmul)
  have co: "\<forall>i<n. x_l_coef (fst (dp_relu self bnds it dp_lambda)) ! t ! i =
           pos_part (x_l_coef self ! t ! i) * lambda_l (fst (relu_relaxation bnds it dp_lambda)) ! i
         + neg_part (x_l_coef self ! t ! i) * lambda_u (fst (relu_relaxation bnds it dp_lambda)) ! i"
    "\<forall>i<n. x_u_coef (fst (dp_relu self bnds it dp_lambda)) ! t ! i =
           pos_part (x_u_coef self ! t ! i) * lambda_u (fst (relu_relaxation bnds it dp_lambda)) ! i
         + neg_part (x_u_coef self ! t ! i) * lambda_l (fst (relu_relaxation bnds it dp_lambda)) ! i"
    using assms(1,2,5,6) L by (simp_all add: dp_relu_coef)
  note bi = dp_relu_bias[OF assms]
  show ?thesis
    unfolding Let_def
    using co lens bi assms(1,2,5,6)
    by (simp add: get_neg_pos_comp_def)
qed

theorem relu_sign_split_witness:
  "(let d = fst (dp_relu \<lparr>x_l_coef = [[- 5, 6]], x_u_coef = [[7, - 8]], x_l_bias = [1],
                         x_u_bias = [2]\<rparr> ([- 1, - 1], [1, 1]) 0 None)
    in x_l_bias d ! 0 = 1 + (- 5) * (1 / 2)
     \<and> x_u_bias d ! 0 = 2 + 7 * (1 / 2))"
  using relu_sign_split [where t = 0 and self = "\<lparr>x_l_coef = [[- 5, 6]], x_u_coef = [[7, - 8]],
      x_l_bias = [1], x_u_bias = [2]\<rparr>" and n = 2 and bnds = "([- 1, - 1], [1, 1])"
      and dp_lambda = None and it = 0]
  by (simp add: relu_eval get_neg_pos_comp_def pos_part_def neg_part_def
      lessThan_Suc numeral_2_eq_2)



section \<open>Intersection of the partial bounds\<close>

lemma tighter_None [simp]: "tighter a None"
  by (simp add: tighter_def)

lemma tighter_first:
  "tighter (Some (case a of None \<Rightarrow> tmp
                  | Some a \<Rightarrow> (map2 max (fst a) (fst tmp), map2 min (snd a) (snd tmp))))
     (Some tmp)"
  by (cases tmp) (auto simp: tighter_def split: option.splits)

lemma tighter_both:
  assumes "tighter (Some a) (Some b)"
  shows "tighter (Some (map2 max (fst a) (fst tmp), map2 min (snd a) (snd tmp)))
           (Some (map2 max (fst b) (fst tmp), map2 min (snd b) (snd tmp)))"
  using assms
  by (cases a; cases b; cases tmp) (auto simp: tighter_def max.coboundedI1 min.coboundedI1)

lemma tighter_step:
  assumes "tighter a (Some b)"
  shows "tighter (Some (case a of None \<Rightarrow> tmp
                  | Some a \<Rightarrow> (map2 max (fst a) (fst tmp), map2 min (snd a) (snd tmp))))
     (Some b)"
  using assms
  by (cases b; cases tmp)
     (auto simp: tighter_def max.coboundedI1 min.coboundedI1 split: option.splits)

lemma backward_loop_monotone:
  assumes "backward_loop net n d it ul False ai accF = Inr (net', rF)"
    and "tighter accT accF"
  shows "\<exists>rT. backward_loop net n d it ul True ai accT = Inr (net', rT) \<and> tighter rT rF"
  using assms
proof (induction n arbitrary: net d accF accT)
  case 0
  then show ?case by simp
next
  case (Suc j)
  from Suc.prems(1) have j: "j < length net"
    by (simp split: if_splits)
  from Suc.prems(1) j obtain layer d' where
    bp: "backprop_dp (net ! j) d it ul = Inr (layer, d')"
    by (auto split: sum.splits)
  show ?case
  proof (cases "j = 0")
    case True
    with Suc.prems(1) bp j obtain tmp where
      c: "dp_concretize d' None ai = Inr tmp"
      and r: "rF = Some (case accF of None \<Rightarrow> tmp
                  | Some a \<Rightarrow> (map2 max (fst a) (fst tmp), map2 min (snd a) (snd tmp)))"
      and n: "net' = net[0 := layer]"
      by (auto split: sum.splits)
    have "tighter (Some (case accT of None \<Rightarrow> tmp
                  | Some a \<Rightarrow> (map2 max (fst a) (fst tmp), map2 min (snd a) (snd tmp)))) rF"
    proof (cases accF)
      case None
      then show ?thesis unfolding r by (simp add: tighter_first)
    next
      case (Some b)
      with Suc.prems(2) obtain a where a: "accT = Some a"
        by (cases accT) (auto simp: tighter_def)
      show ?thesis
        unfolding r Some a using tighter_both[of a b tmp] Suc.prems(2) Some a by simp
    qed
    with True bp j c n show ?thesis by simp
  next
    case False
    with Suc.prems(1) bp j have
      F: "backward_loop (net[j := layer]) j d' it ul False ai accF = Inr (net', rF)"
      by simp
    show ?thesis
    proof (cases "bounds layer")
      case None
      with False bp j Suc.IH[OF F Suc.prems(2)] show ?thesis by simp
    next
      case (Some bnds)
      obtain tmp where c: "dp_concretize d' (Some bnds) None = Inr tmp"
        by (auto simp: dp_concretize_def Let_def split_beta)
      let ?a = "Some (case accT of None \<Rightarrow> tmp
                  | Some a \<Rightarrow> (map2 max (fst a) (fst tmp), map2 min (snd a) (snd tmp)))"
      have "tighter ?a accF"
      proof (cases accF)
        case None
        then show ?thesis by simp
      next
        case (Some b)
        with Suc.prems(2) show ?thesis using tighter_step[of accT b tmp] by simp
      qed
      from Suc.IH[OF F this] False bp j Some c show ?thesis by simp
    qed
  qed
qed

lemma has_targets_linear: "has_targets d T \<Longrightarrow> has_targets (dp_linear d w b) T"
  by (simp add: has_targets_def dp_linear_def length_vadd split: option.splits)

lemma has_targets_bias: "has_targets d T \<Longrightarrow> has_targets (dp_bias d v) T"
  by (simp add: has_targets_def dp_bias_def length_vadd)

lemma has_targets_scale: "has_targets d T \<Longrightarrow> has_targets (dp_scale d v) T"
  by (simp add: has_targets_def dp_scale_def)

lemma has_targets_normalize: "has_targets d T \<Longrightarrow> has_targets (dp_normalize d m s) T"
  by (simp add: has_targets_def dp_normalize_def Let_def length_vadd)

lemma has_targets_flatten: "has_targets d T \<Longrightarrow> has_targets (dp_flatten d sz) T"
  by (simp add: has_targets_def dp_flatten_def)

lemma has_targets_global_avg_pool2d:
  "has_targets d T \<Longrightarrow> has_targets (dp_global_avg_pool2d d hw) T"
  by (simp add: has_targets_def dp_global_avg_pool2d_def Let_def)

lemma has_targets_upsample: "has_targets d T \<Longrightarrow> has_targets (dp_upsample d f) T"
  by (simp add: has_targets_def dp_upsample_def)

lemma has_targets_relu: "has_targets d T \<Longrightarrow> has_targets (fst (dp_relu d bnds it p)) T"
  by (simp add: has_targets_def dp_relu_def Let_def split_beta get_neg_pos_comp_def
      length_vadd)

lemma has_targets_batch_norm:
  "has_targets d T \<Longrightarrow> dp_batch_norm d r m v w b e = Inr d' \<Longrightarrow> has_targets d' T"
  by (auto simp: has_targets_def dp_batch_norm_def Let_def length_vadd split: if_splits)

lemma has_targets_conv:
  "has_targets d T \<Longrightarrow> dp_conv d pw kw ct cb st pd dl = Inr d' \<Longrightarrow> has_targets d' T"
  by (auto simp: has_targets_def dp_conv_def length_vadd split: option.splits)

lemma has_targets_avg_pool2d:
  "has_targets d T \<Longrightarrow> dp_avg_pool2d d pw ks st pd pt = Inr d' \<Longrightarrow> has_targets d' T"
  by (auto simp: has_targets_def dp_avg_pool2d_def Let_def split: option.splits)

lemma has_targets_add:
  "has_targets a T \<Longrightarrow> has_targets b T \<Longrightarrow> has_targets (dp_add a b) T"
  by (simp add: has_targets_def dp_add_def length_vadd)

lemma backprop_has_targets:
  "backprop_dp l d it ul = Inr (l', d') \<Longrightarrow> has_targets d T \<Longrightarrow> has_targets d' T"
  "backprop_layers ls d it ul = Inr (ls', d') \<Longrightarrow> has_targets d T \<Longrightarrow> has_targets d' T"
proof (induction l d it ul and ls d it ul arbitrary: l' d' and ls' d'
    rule: backprop_dp_backprop_layers.induct)
  case (1 ls b d it use_lambda)
  then show ?case by (auto split: sum.splits)
next
  case (2 weight bias b d it use_lambda)
  then show ?case by (auto simp: has_targets_linear)
next
  case (3 input_size b d it use_lambda)
  then show ?case by (auto simp: has_targets_flatten)
next
  case (4 mean sigma b d it use_lambda)
  then show ?case by (auto simp: has_targets_normalize)
next
  case (5 deepz_lambda output_dim b d it use_lambda)
  from 5(1) obtain bnds p where "d' = fst (dp_relu d bnds it p)"
    by (auto simp: Let_def split: option.splits prod.splits) (metis fst_conv)+
  with 5(2) show ?case by (simp add: has_targets_relu)
next
  case (6 preconv_wh kernel_wh fwd conv_transpose2d bias stride padding dilation b d it
      use_lambda)
  then show ?case by (auto split: sum.splits dest: has_targets_conv)
next
  case (7 hw b d it use_lambda)
  then show ?case by (auto simp: has_targets_global_avg_pool2d split: option.splits)
next
  case (8 preconv_wh kernel_size stride padding fwd conv_transpose2d b d it use_lambda)
  then show ?case by (auto split: sum.splits dest: has_targets_avg_pool2d)
next
  case (9 fwd interpolate b d it use_lambda)
  then show ?case by (auto simp: has_targets_upsample)
next
  case (10 out_rank training current_mean current_var running_mean running_var weight bias
      bn_eps b d it use_lambda)
  then show ?case by (auto simp: Let_def split: sum.splits dest: has_targets_batch_norm)
next
  case (11 bias b d it use_lambda)
  then show ?case by (auto simp: has_targets_bias)
next
  case (12 scale b d it use_lambda)
  then show ?case by (auto simp: has_targets_scale)
next
  case (13 residual downsample relu_final b d it use_lambda)
  then show ?case by simp
next
  case (14 fwd b d it use_lambda)
  then show ?case by simp
next
  case (15 d it use_lambda)
  then show ?case by simp
next
  case (16 l ls d it use_lambda)
  from 16(3) obtain ls0 d0 l0 where
    a: "backprop_layers ls d it use_lambda = Inr (ls0, d0)"
    and b: "backprop_dp l d0 it use_lambda = Inr (l0, d')"
    by (auto split: sum.splits)
  from 16(1)[OF a 16(4)] have "has_targets d0 T" .
  from 16(2)[OF a refl b this] show ?case .
qed

lemma dp_concretize_shape:
  assumes "has_targets d T" and "dp_concretize d bnds ai = Inr tmp" and "interval_input ai"
  shows "length (fst tmp) = T \<and> length (snd tmp) = T"
  using assms
  by (auto simp: dp_concretize_def has_targets_def interval_input_def Let_def split_beta
      get_neg_pos_comp_def length_vadd split: if_splits option.splits)

lemma shaped_combine:
  assumes "shaped acc T" and "length (fst tmp) = T \<and> length (snd tmp) = T"
  shows "shaped (Some (case acc of None \<Rightarrow> tmp
              | Some a \<Rightarrow> (map2 max (fst a) (fst tmp), map2 min (snd a) (snd tmp)))) T"
  using assms by (cases tmp) (auto simp: shaped_def split: option.splits)

lemma backward_loop_shape:
  assumes "backward_loop net n d it ul ui ai acc = Inr (net', r)"
    and "has_targets d T" and "shaped acc T" and "interval_input ai"
  shows "shaped r T"
  using assms
proof (induction n arbitrary: net d acc)
  case 0
  then show ?case by simp
next
  case (Suc j)
  from Suc.prems(1) have j: "j < length net"
    by (simp split: if_splits)
  from Suc.prems(1) j obtain layer d' where
    bp: "backprop_dp (net ! j) d it ul = Inr (layer, d')"
    by (auto split: sum.splits)
  have ht: "has_targets d' T"
    using backprop_has_targets(1)[OF bp Suc.prems(2)] .
  show ?case
  proof (cases "j = 0 \<or> (ui \<and> bounds layer \<noteq> None)")
    case True
    with Suc.prems(1) bp j obtain tmp where
      c: "dp_concretize d' (if j > 0 then bounds layer else None)
            (if j > 0 then None else ai) = Inr tmp"
      and r: "backward_loop (net[j := layer]) j d' it ul ui ai
                (Some (case acc of None \<Rightarrow> tmp
                  | Some a \<Rightarrow> (map2 max (fst a) (fst tmp), map2 min (snd a) (snd tmp))))
              = Inr (net', r)"
      by (auto split: sum.splits if_splits)
    have "interval_input (if j > 0 then None else ai)"
      using Suc.prems(4) by (simp add: interval_input_def)
    from dp_concretize_shape[OF ht c this]
    have "length (fst tmp) = T \<and> length (snd tmp) = T" .
    from Suc.IH[OF r ht shaped_combine[OF Suc.prems(3) this] Suc.prems(4)]
    show ?thesis .
  next
    case False
    with Suc.prems(1) bp j have
      "backward_loop (net[j := layer]) j d' it ul ui ai acc = Inr (net', r)"
      by auto
    from Suc.IH[OF this ht Suc.prems(3,4)] show ?thesis .
  qed
qed

lemma backward_loop_Some:
  assumes "backward_loop net n d it ul ui ai acc = Inr (net', r)" and "n > 0 \<or> acc \<noteq> None"
  shows "r \<noteq> None"
  using assms
proof (induction n arbitrary: net d acc)
  case 0
  then show ?case by simp
next
  case (Suc j)
  from Suc.prems(1) have j: "j < length net"
    by (simp split: if_splits)
  from Suc.prems(1) j obtain layer d' where
    bp: "backprop_dp (net ! j) d it ul = Inr (layer, d')"
    by (auto split: sum.splits)
  show ?case
  proof (cases "j = 0 \<or> (ui \<and> bounds layer \<noteq> None)")
    case True
    with Suc.prems(1) bp j obtain acc' where
      "backward_loop (net[j := layer]) j d' it ul ui ai (Some acc') = Inr (net', r)"
      by (auto split: sum.splits if_splits)
    from Suc.IH[OF this] show ?thesis by simp
  next
    case False
    with Suc.prems(1) bp j have
      r: "backward_loop (net[j := layer]) j d' it ul ui ai acc = Inr (net', r)"
      and "j > 0 \<or> acc \<noteq> None"
      by auto
    from Suc.IH[OF this] show ?thesis .
  qed
qed

text \<open>
  C5. For every network, input region and seed relation, when \<^verbatim>\<open>backward_deeppoly\<close>
  returns with \<^verbatim>\<open>use_intermediate=False\<close> it returns with \<^verbatim>\<open>use_intermediate=True\<close> too,
  leaving the network in the same state, and the bounds of the second run are contained in
  those of the first: no lower bound is smaller and no upper bound larger. For a seed with
  \<open>T\<close> target expressions and an interval input both pairs have \<open>T\<close> entries.
\<close>

theorem intersection_monotone:
  assumes "backward_deeppoly net layer_idx d it use_lambda False abs_inputs = Inr (net', rF)"
  shows "\<exists>rT. backward_deeppoly net layer_idx d it use_lambda True abs_inputs = Inr (net', rT)
            \<and> (rT = None \<longleftrightarrow> rF = None) \<and> tighter rT rF
            \<and> (has_targets d T \<and> interval_input abs_inputs \<longrightarrow> shaped rT T \<and> shaped rF T)"
proof -
  let ?n = "nat (layer_idx + 1)"
  have F: "backward_loop net ?n d it use_lambda False abs_inputs None = Inr (net', rF)"
    using assms by (simp add: backward_deeppoly_def)
  from backward_loop_monotone[OF F, of None] obtain rT where
    T: "backward_loop net ?n d it use_lambda True abs_inputs None = Inr (net', rT)"
    and t: "tighter rT rF"
    by auto
  have n: "rT = None \<longleftrightarrow> rF = None"
  proof (cases "?n = 0")
    case True
    with F T show ?thesis by simp
  next
    case False
    then have "?n > 0 \<or> (None :: (vec \<times> vec) option) \<noteq> None" by simp
    from backward_loop_Some[OF F this] backward_loop_Some[OF T this] show ?thesis by auto
  qed
  have s: "has_targets d T \<and> interval_input abs_inputs \<longrightarrow> shaped rT T \<and> shaped rF T"
    using backward_loop_shape[OF F, of T] backward_loop_shape[OF T, of T]
    by (simp add: shaped_def)
  from T n t s show ?thesis by (auto simp: backward_deeppoly_def)
qed

lemma net2_False:
  "backward_deeppoly net2 1 (seed [[1]]) 0 False False (Some box1)
     = Inr (net2, Some ([- 2], [9 / 4]))"
  by (simp add: backward_deeppoly_def net2_def box1_def seed_def numeral_2_eq_2
      dp_relu_def relu_eval get_neg_pos_comp_def pos_part_def neg_part_def
      vadd_def vmul_def dp_linear_def ncols_def dp_concretize_def)

theorem intersection_monotone_witness:
  "\<exists>rT. backward_deeppoly net2 1 (seed [[1]]) 0 False True (Some box1) = Inr (net2, rT)
        \<and> rT \<noteq> None \<and> tighter rT (Some ([- 2], [9 / 4])) \<and> shaped rT 1"
  using intersection_monotone [OF net2_False, where T = 1]
  by (auto simp: has_targets_def seed_def interval_input_def box1_def)

section \<open>The residual block\<close>

lemma vec_mat_length:
  "\<forall>r\<in>set w. length r = n \<Longrightarrow> length (vec_mat n c w) = n"
  by (induction n c w rule: vec_mat.induct) (auto simp: length_vadd)

lemma vec_mat_nth:
  "\<forall>r\<in>set w. length r = n \<Longrightarrow> j < n \<Longrightarrow>
     vec_mat n c w ! j = (\<Sum>k<min (length c) (length w). c ! k * w ! k ! j)"
proof (induction n c w rule: vec_mat.induct)
  case (1 n c cs r rs)
  then have "vec_mat n cs rs ! j = (\<Sum>k<min (length cs) (length rs). cs ! k * rs ! k ! j)"
    by simp
  moreover have "length (vec_mat n cs rs) = n"
    using 1 by (simp add: vec_mat_length)
  moreover have "(\<Sum>k<Suc (min (length cs) (length rs)). (c # cs) ! k * (r # rs) ! k ! j)
      = c * r ! j + (\<Sum>k<min (length cs) (length rs). cs ! k * rs ! k ! j)"
    by (subst sum.lessThan_Suc_shift) simp
  ultimately show ?case
    using 1(2,3) by (simp add: nth_vadd del: sum.lessThan_Suc)
qed simp_all

lemma ncols_eye: "ncols (eye n) = n"
  by (cases n) (simp_all add: ncols_def eye_def upt_conv_Cons del: upt_Suc)

lemma vec_mat_eye:
  assumes "length c = n"
  shows "vec_mat n c (eye n) = c"
proof (rule nth_equalityI)
  have rows: "\<forall>r\<in>set (eye n). length r = n"
    by (auto simp: eye_def)
  show "length (vec_mat n c (eye n)) = length c"
    using vec_mat_length[OF rows] assms by simp
  fix j assume "j < length (vec_mat n c (eye n))"
  then have j: "j < n" using vec_mat_length[OF rows] by simp
  have "vec_mat n c (eye n) ! j = (\<Sum>k<n. c ! k * eye n ! k ! j)"
    using vec_mat_nth[OF rows j, of c] assms by (simp add: eye_def)
  also have "\<dots> = (\<Sum>k<n. if k = j then c ! k else 0)"
    using j by (intro sum.cong) (auto simp: eye_def)
  also have "\<dots> = c ! j"
    using j by simp
  finally show "vec_mat n c (eye n) ! j = c ! j" .
qed

lemma dot_zeros: "dot row (replicate n 0) = 0"
proof -
  have "map2 (*) row (replicate n (0::real)) = replicate (min (length row) n) 0"
    by (rule nth_equalityI) auto
  then show ?thesis by (simp add: dot_def sum_list_replicate)
qed

lemma vadd_zeros_left: "length v = n \<Longrightarrow> vadd (replicate n 0) v = v"
  by (rule nth_equalityI) (auto simp: vadd_def)

lemma vadd_zeros_right: "length v = n \<Longrightarrow> vadd v (replicate n 0) = v"
  by (rule nth_equalityI) (auto simp: vadd_def)

lemma vadd_self: "vadd r r = map ((*) 2) r"
  by (rule nth_equalityI) (auto simp: vadd_def)

lemma dp_linear_identity:
  assumes "\<forall>r\<in>set (x_l_coef d). length r = n" and "\<forall>r\<in>set (x_u_coef d). length r = n"
    and "length (x_l_bias d) = length (x_l_coef d)"
    and "length (x_u_bias d) = length (x_u_coef d)"
    and "zero_bias = None \<or> zero_bias = Some (replicate n 0)"
  shows "dp_linear d (eye n) zero_bias = d"
proof -
  have 1: "map (\<lambda>row. vec_mat (ncols (eye n)) row (eye n)) (x_l_coef d) = x_l_coef d"
    using assms(1) by (simp add: ncols_eye map_idI vec_mat_eye)
  have 2: "map (\<lambda>row. vec_mat (ncols (eye n)) row (eye n)) (x_u_coef d) = x_u_coef d"
    using assms(2) by (simp add: ncols_eye map_idI vec_mat_eye)
  have 3: "vadd (x_l_bias d) (map (\<lambda>row. dot row (replicate n 0)) (x_l_coef d)) = x_l_bias d"
    using assms(3) by (simp add: dot_zeros map_replicate_const vadd_zeros_right)
  have 4: "vadd (x_u_bias d) (map (\<lambda>row. dot row (replicate n 0)) (x_u_coef d)) = x_u_bias d"
    using assms(4) by (simp add: dot_zeros map_replicate_const vadd_zeros_right)
  show ?thesis
    using assms(5) 1 2 3 4 by (auto simp: dp_linear_def)
qed

text \<open>
  C6. A \<^verbatim>\<open>ResBlock\<close> layer reached during the dispatch of \<^verbatim>\<open>backprop_dp\<close>: the branch
  calls \<^verbatim>\<open>dp_res_block\<close> with the argument \<^verbatim>\<open>lambda_layer\<close>, a name that is bound nowhere
  in \<^verbatim>\<open>backprop_dp\<close>, so Python raises \<^verbatim>\<open>NameError\<close> while it evaluates the arguments
  and no relation is returned: not for the block with no downsample, the identity linear
  layer as its residual branch and no final ReLU, and not when that block is a layer of a
  network that \<^verbatim>\<open>backward_deeppoly\<close> walks through.
\<close>

theorem resblock_dispatch_raises:
  "backprop_dp (Layer (ResBlock (Layer (Linear (eye 1) (Some [0])) None) None None) None)
       rel1 0 False = Inl NameError
   \<and> backward_deeppoly
       [Layer (ResBlock (Layer (Linear (eye 1) (Some [0])) None) None None) None] 0
       (seed [[1]]) 0 False False (Some box1) = Inl NameError"
  by (simp add: backward_deeppoly_def)

section \<open>The memo of the recursive bound solver\<close>

lemma same_shape_refl [simp]: "same_shape l l"
  by (simp add: same_shape_def)

lemma same_shape_trans: "same_shape a b \<Longrightarrow> same_shape b c \<Longrightarrow> same_shape a c"
  by (simp add: same_shape_def)

lemma backprop_dp_same_shape:
  assumes "backprop_dp l d it ul = Inr (l', d')"
  shows "same_shape l' l"
proof (cases l)
  case (Layer k b)
  show ?thesis
  proof (cases k)
    case (ReLU dl od)
    with Layer assms show ?thesis
      by (auto simp: same_shape_def is_ReLU_def relu_output_dim_def Let_def
          split: option.splits prod.splits)
  qed (use Layer assms in \<open>auto simp: same_shape_def is_ReLU_def relu_output_dim_def Let_def
          split: sum.splits option.splits\<close>)
qed

lemma backward_loop_frame:
  assumes "backward_loop net n d it ul ui ai acc = Inr (net', r)"
  shows "length net' = length net \<and> (\<forall>j\<ge>n. net' ! j = net ! j)
       \<and> (\<forall>j<length net. same_shape (net' ! j) (net ! j))"
  using assms
proof (induction n arbitrary: net d acc)
  case 0
  then show ?case by simp
next
  case (Suc j)
  from Suc.prems have j: "j < length net"
    by (simp split: if_splits)
  from Suc.prems j obtain layer d' where
    bp: "backprop_dp (net ! j) d it ul = Inr (layer, d')"
    by (auto split: sum.splits)
  from Suc.prems bp j obtain acc' where
    r: "backward_loop (net[j := layer]) j d' it ul ui ai acc' = Inr (net', r)"
    by (auto split: sum.splits if_splits)
  from Suc.IH[OF r] have
    ih: "length net' = length net" "\<forall>k\<ge>j. net' ! k = net[j := layer] ! k"
      "\<forall>k<length net. same_shape (net' ! k) (net[j := layer] ! k)"
    by auto
  have "same_shape (net[j := layer] ! k) (net ! k)" if "k < length net" for k
    using that backprop_dp_same_shape[OF bp] by (cases "k = j") auto
  with ih show ?case
    by (auto intro: same_shape_trans)
qed

declare bound_previous.simps [simp del] compute_dp_relu_bounds.simps [simp del]

lemma same_kinds_refl [simp]: "same_kinds s s"
  by (simp add: same_kinds_def same_kind_def)

lemma same_kinds_trans: "same_kinds a b \<Longrightarrow> same_kinds b c \<Longrightarrow> same_kinds a c"
  by (simp add: same_kinds_def same_kind_def)

lemma same_kinds_memo [simp]:
  "same_kinds (s'\<lparr>already_bounded_layers := m\<rparr>) s = same_kinds s' s"
  by (simp add: same_kinds_def)

lemma same_kind_update_bounds [simp]: "same_kind (update_bounds l b) l"
  by (simp add: same_kind_def update_bounds_def is_ReLU_def relu_output_dim_def)

lemma same_shape_kind: "same_shape l' l \<Longrightarrow> same_kind l' l"
  by (simp add: same_shape_def same_kind_def)

lemma bound_last_layer_effect:
  assumes "bound_last_layer s M ai it ul ui = Inr s'"
  shows "already_bounded_layers s' = already_bounded_layers s"
    and "same_kinds s' s"
    and "\<forall>j<length (layers s). j \<noteq> M \<longrightarrow> bounds (layers s' ! j) = bounds (layers s ! j)"
    and "\<forall>j>M. layers s' ! j = layers s ! j"
    and "substitutions s' = substitutions s @ (if is_ReLU (layers s ! M) then [M] else [])"
    and "\<not> is_ReLU (layers s ! M) \<longrightarrow> s' = s"
    and "M < length (layers s)"
proof -
  from assms have M: "M < length (layers s)"
    by (simp add: bound_last_layer_def split: if_splits)
  show "M < length (layers s)" by fact
  show n: "\<not> is_ReLU (layers s ! M) \<longrightarrow> s' = s"
    using assms M by (auto simp: bound_last_layer_def)
  show "already_bounded_layers s' = already_bounded_layers s"
    using assms M
    by (auto simp: bound_last_layer_def Let_def split: if_splits sum.splits option.splits)
  show "substitutions s' = substitutions s @ (if is_ReLU (layers s ! M) then [M] else [])"
    using assms M
    by (auto simp: bound_last_layer_def Let_def split: if_splits sum.splits option.splits)
  show "same_kinds s' s"
    and "\<forall>j<length (layers s). j \<noteq> M \<longrightarrow> bounds (layers s' ! j) = bounds (layers s ! j)"
    and "\<forall>j>M. layers s' ! j = layers s ! j"
  proof -
    have "same_kinds s' s
      \<and> (\<forall>j<length (layers s). j \<noteq> M \<longrightarrow> bounds (layers s' ! j) = bounds (layers s ! j))
      \<and> (\<forall>j>M. layers s' ! j = layers s ! j)"
    proof (cases "is_ReLU (layers s ! M)")
      case False
      with n show ?thesis by simp
    next
      case True
      with assms M obtain net' b where
        bd: "backward_deeppoly (layers s) (int M - 1)
               (seed (eye (prod_list (relu_output_dim (layers s ! M))))) it ul ui (Some ai)
             = Inr (net', Some b)"
        and s': "s' = s\<lparr>layers := net'[M := update_bounds (net' ! M) b],
                       substitutions := substitutions s @ [M]\<rparr>"
        by (auto simp: bound_last_layer_def Let_def split: sum.splits option.splits)
      from bd have "backward_loop (layers s) M
               (seed (eye (prod_list (relu_output_dim (layers s ! M))))) it ul ui (Some ai) None
             = Inr (net', Some b)"
        by (simp add: backward_deeppoly_def)
      from backward_loop_frame[OF this] have
        f: "length net' = length (layers s)" "\<forall>j\<ge>M. net' ! j = layers s ! j"
          "\<forall>j<length (layers s). same_shape (net' ! j) (layers s ! j)"
        by auto
      have "same_kind (net'[M := update_bounds (net' ! M) b] ! j) (layers s ! j)"
        if "j < length (layers s)" for j
      proof (cases "j = M")
        case True
        with f that show ?thesis
          by (simp add: same_kind_def update_bounds_def is_ReLU_def relu_output_dim_def)
      next
        case False
        with f that show ?thesis by (simp add: same_shape_kind)
      qed
      with f s' show ?thesis
        by (auto simp: same_kinds_def same_shape_def)
    qed
    then show "same_kinds s' s"
      and "\<forall>j<length (layers s). j \<noteq> M \<longrightarrow> bounds (layers s' ! j) = bounds (layers s ! j)"
      and "\<forall>j>M. layers s' ! j = layers s ! j"
      by auto
  qed
qed

lemma bound_previous_covered:
  assumes "covered s M"
  shows "bound_previous s M i f ai it ul rb ui = Inr s"
  using assms
proof (induction "M - i" arbitrary: i f)
  case 0
  then show ?case by (subst bound_previous.simps) simp
next
  case (Suc k)
  then have i: "i < M" by simp
  have step: "k = M - Suc i" using Suc(2) by simp
  show ?case
  proof (cases "i \<ge> length (layers s)")
    case True
    then show ?thesis by (subst bound_previous.simps) simp
  next
    case False
    with Suc.prems i have "\<not> (is_ReLU (layers s ! i) \<and> i \<notin> set (already_bounded_layers s))"
      by (auto simp: covered_def)
    with False i Suc(1)[OF step Suc.prems] show ?thesis
      by (subst bound_previous.simps) auto
  qed
qed

lemma compute_covered:
  assumes "covered s i" and "compute_dp_relu_bounds s i ai it ul rb ui = Inr s1"
  shows "already_bounded_layers s1 = already_bounded_layers s"
    and "same_kinds s1 s"
    and "\<forall>j>i. layers s1 ! j = layers s ! j"
    and "substitutions s1 =
           substitutions s @ (if i > 0 \<and> is_ReLU (layers s ! i) then [i] else [])"
proof -
  have "already_bounded_layers s1 = already_bounded_layers s \<and> same_kinds s1 s
      \<and> (\<forall>j>i. layers s1 ! j = layers s ! j)
      \<and> substitutions s1 =
           substitutions s @ (if i > 0 \<and> is_ReLU (layers s ! i) then [i] else [])"
  proof (cases "i = 0")
    case True
    with assms(2) have ne: "layers s \<noteq> []"
      and s1: "s1 = s\<lparr>layers := (layers s)[0 := update_bounds (layers s ! 0) (concretize ai)]\<rparr>"
      by (auto simp: compute_dp_relu_bounds.simps split: if_splits)
    have "same_kind ((layers s)[0 := update_bounds (layers s ! 0) (concretize ai)] ! j)
            (layers s ! j)" if "j < length (layers s)" for j
      using that
      by (cases j)
         (simp_all add: same_kind_def update_bounds_def is_ReLU_def relu_output_dim_def)
    with True s1 show ?thesis
      by (simp add: same_kinds_def)
  next
    case False
    with assms have "bound_last_layer s i ai it ul ui = Inr s1"
      by (simp add: compute_dp_relu_bounds.simps bound_previous_covered)
    from bound_last_layer_effect[OF this] False show ?thesis by simp
  qed
  then show "already_bounded_layers s1 = already_bounded_layers s"
    and "same_kinds s1 s"
    and "\<forall>j>i. layers s1 ! j = layers s ! j"
    and "substitutions s1 =
           substitutions s @ (if i > 0 \<and> is_ReLU (layers s ! i) then [i] else [])"
    by auto
qed

lemma bound_previous_effect:
  assumes "covered s i" and "bound_previous s M i f ai it ul rb ui = Inr s'"
  shows "same_kinds s' s \<and> (\<forall>j\<ge>M. layers s' ! j = layers s ! j)
       \<and> (\<exists>new. substitutions s' = substitutions s @ new \<and> distinct new
              \<and> set new \<subseteq> {i..<M} \<and> (\<forall>j\<in>set new. is_ReLU (layers s ! j)))"
  using assms
proof (induction "M - i" arbitrary: s i f)
  case 0
  then have "s' = s"
    by (subst (asm) bound_previous.simps) simp
  then show ?case by simp
next
  case (Suc k)
  then have i: "i < M" by simp
  have step: "k = M - Suc i" using Suc(2) by simp
  show ?case
  proof (cases "i \<ge> length (layers s)")
    case True
    with Suc.prems(2) have "s' = s"
      by (subst (asm) bound_previous.simps) simp
    then show ?thesis by simp
  next
    case len: False
    show ?thesis
    proof (cases "is_ReLU (layers s ! i) \<and> i \<notin> set (already_bounded_layers s)")
      case False
      with Suc.prems(2) i len have
        r: "bound_previous s M (Suc i) f ai it ul rb ui = Inr s'"
        by (subst (asm) bound_previous.simps) (simp split: if_splits)
      have "covered s (Suc i)"
        using Suc.prems(1) False by (auto simp: covered_def less_Suc_eq)
      from Suc(1)[OF step this r] obtain new where
        n: "same_kinds s' s" "\<forall>j\<ge>M. layers s' ! j = layers s ! j"
          "substitutions s' = substitutions s @ new" "distinct new"
          "set new \<subseteq> {Suc i..<M}" "\<forall>j\<in>set new. is_ReLU (layers s ! j)"
        by auto
      from n(5) have "set new \<subseteq> {i..<M}" by auto
      with n show ?thesis by blast
    next
      case True
      define cnd where "cnd \<longleftrightarrow> (bounds (layers s ! i) = None \<or> rb)
              \<and> \<not> (f \<and> bounds (layers s ! i) \<noteq> None)"
      define call where "call =
        (if cnd then compute_dp_relu_bounds s i ai it ul True ui else Inr s)"
      from Suc.prems(2) i len True obtain s1 where
        c: "call = Inr s1"
        and r: "bound_previous (s1\<lparr>already_bounded_layers := already_bounded_layers s1 @ [i]\<rparr>)
                  M (Suc i) False ai it ul rb ui = Inr s'"
        unfolding call_def cnd_def
        by (subst (asm) bound_previous.simps) (auto split: sum.splits if_splits)
      have s1: "already_bounded_layers s1 = already_bounded_layers s \<and> same_kinds s1 s
          \<and> (\<forall>j>i. layers s1 ! j = layers s ! j)
          \<and> (\<exists>e. substitutions s1 = substitutions s @ e \<and> set e \<subseteq> {i} \<and> distinct e
                \<and> (\<forall>j\<in>set e. is_ReLU (layers s ! j)))"
      proof (cases cnd)
        case True
        with c have "compute_dp_relu_bounds s i ai it ul True ui = Inr s1"
          by (simp add: call_def)
        from compute_covered[OF Suc.prems(1) this] show ?thesis by auto
      next
        case False
        with c have "s1 = s" by (simp add: call_def)
        then show ?thesis by simp
      qed
      let ?s2 = "s1\<lparr>already_bounded_layers := already_bounded_layers s1 @ [i]\<rparr>"
      have cov: "covered ?s2 (Suc i)"
        using Suc.prems(1) s1
        by (auto simp: covered_def less_Suc_eq same_kinds_def same_kind_def)
      from Suc(1)[OF step cov r] obtain new where
        ih: "same_kinds s' ?s2" "\<forall>j\<ge>M. layers s' ! j = layers ?s2 ! j"
          "substitutions s' = substitutions ?s2 @ new" "distinct new"
          "set new \<subseteq> {Suc i..<M}" "\<forall>j\<in>set new. is_ReLU (layers ?s2 ! j)"
        by auto
      from s1 obtain e where
        e: "substitutions s1 = substitutions s @ e" "set e \<subseteq> {i}" "distinct e"
          "\<forall>j\<in>set e. is_ReLU (layers s ! j)"
        by auto
      have k: "same_kinds s' s"
        using ih(1) s1 by (auto intro: same_kinds_trans)
      have l: "\<forall>j\<ge>M. layers s' ! j = layers s ! j"
        using ih(2) s1 i by auto
      have relu: "\<forall>j\<in>set new. is_ReLU (layers s ! j)"
      proof
        fix j assume j: "j \<in> set new"
        with ih(5) have "j > i" by auto
        with s1 have eq: "layers s1 ! j = layers s ! j" by simp
        from ih(6) j have "is_ReLU (layers s1 ! j)" by simp
        then show "is_ReLU (layers s ! j)" unfolding eq .
      qed
      have "substitutions s' = substitutions s @ (e @ new)" "distinct (e @ new)"
        "set (e @ new) \<subseteq> {i..<M}" "\<forall>j\<in>set (e @ new). is_ReLU (layers s ! j)"
        using ih(3,4,5) e i relu by auto
      with k l show ?thesis by blast
    qed
  qed
qed

lemma populated_memo [simp]:
  "populated (s\<lparr>already_bounded_layers := m\<rparr>) M = populated s M"
  by (simp add: populated_def)

lemma bound_previous_populated:
  assumes "populated s M"
  shows "\<exists>m. bound_previous s M i f ai it ul False ui
           = Inr (s\<lparr>already_bounded_layers := already_bounded_layers s @ m\<rparr>)"
  using assms
proof (induction "M - i" arbitrary: s i f)
  case 0
  then have "bound_previous s M i f ai it ul False ui
           = Inr (s\<lparr>already_bounded_layers := already_bounded_layers s @ []\<rparr>)"
    by (subst bound_previous.simps) simp
  then show ?case by blast
next
  case (Suc k)
  then have i: "i < M" by simp
  have step: "k = M - Suc i" using Suc(2) by simp
  show ?case
  proof (cases "i \<ge> length (layers s)")
    case True
    then have "bound_previous s M i f ai it ul False ui
           = Inr (s\<lparr>already_bounded_layers := already_bounded_layers s @ []\<rparr>)"
      by (subst bound_previous.simps) simp
    then show ?thesis by blast
  next
    case len: False
    show ?thesis
    proof (cases "is_ReLU (layers s ! i) \<and> i \<notin> set (already_bounded_layers s)")
      case False
      from Suc(1)[OF step Suc.prems, of f] obtain m where
        "bound_previous s M (Suc i) f ai it ul False ui
           = Inr (s\<lparr>already_bounded_layers := already_bounded_layers s @ m\<rparr>)"
        by blast
      with False i len have "bound_previous s M i f ai it ul False ui
           = Inr (s\<lparr>already_bounded_layers := already_bounded_layers s @ m\<rparr>)"
        by (subst bound_previous.simps) auto
      then show ?thesis by blast
    next
      case True
      with Suc.prems i len have b: "bounds (layers s ! i) \<noteq> None"
        by (auto simp: populated_def)
      let ?s2 = "s\<lparr>already_bounded_layers := already_bounded_layers s @ [i]\<rparr>"
      have "populated ?s2 M" using Suc.prems by simp
      from Suc(1)[OF step this, of False] obtain m where
        "bound_previous ?s2 M (Suc i) False ai it ul False ui
           = Inr (?s2\<lparr>already_bounded_layers := already_bounded_layers ?s2 @ m\<rparr>)"
        by blast
      with True i len b have "bound_previous s M i f ai it ul False ui
           = Inr (s\<lparr>already_bounded_layers := already_bounded_layers s @ ([i] @ m)\<rparr>)"
        by (subst bound_previous.simps) auto
      then show ?thesis by blast
    qed
  qed
qed

lemma relu_relaxation_again:
  "relu_relaxation bnds it (snd (relu_relaxation bnds it p)) = relu_relaxation bnds it p"
  by (cases p) (simp_all add: relu_relaxation_def relu_entries_def Let_def)

lemma dp_relu_fst:
  "fst (dp_relu d bnds it p) =
     (let r = fst (relu_relaxation bnds it p);
          neg_x_l_coef = fst (get_neg_pos_comp (x_l_coef d));
          pos_x_l_coef = snd (get_neg_pos_comp (x_l_coef d));
          neg_x_u_coef = fst (get_neg_pos_comp (x_u_coef d));
          pos_x_u_coef = snd (get_neg_pos_comp (x_u_coef d))
      in \<lparr>x_l_coef = map2 (\<lambda>p n. vadd (vmul p (lambda_l r)) (vmul n (lambda_u r)))
                 pos_x_l_coef neg_x_l_coef,
          x_u_coef = map2 (\<lambda>p n. vadd (vmul p (lambda_u r)) (vmul n (lambda_l r)))
                 pos_x_u_coef neg_x_u_coef,
          x_l_bias = vadd (x_l_bias d)
             (map2 (\<lambda>p n. sum_list (vadd (vmul p (mu_l r)) (vmul n (mu_u r))))
                 pos_x_l_coef neg_x_l_coef),
          x_u_bias = vadd (x_u_bias d)
             (map2 (\<lambda>p n. sum_list (vadd (vmul p (mu_u r)) (vmul n (mu_l r))))
                 pos_x_u_coef neg_x_u_coef)\<rparr>)"
  by (simp add: dp_relu_def Let_def split_beta)

lemma dp_relu_snd: "snd (dp_relu d bnds it p) = snd (relu_relaxation bnds it p)"
  by (simp add: dp_relu_def Let_def split_beta)

lemma dp_relu_again:
  assumes "dp_relu d bnds it p = (d', p')"
  shows "dp_relu d bnds it p' = (d', p')"
proof -
  from assms have p': "p' = snd (relu_relaxation bnds it p)"
    and d': "d' = fst (dp_relu d bnds it p)"
    using dp_relu_snd[of d bnds it p] by auto
  have "fst (dp_relu d bnds it p') = d'"
    unfolding d' dp_relu_fst p' relu_relaxation_again ..
  moreover have "snd (dp_relu d bnds it p') = p'"
    unfolding dp_relu_snd p' relu_relaxation_again ..
  ultimately show ?thesis by (simp add: prod_eq_iff)
qed

lemma dp_relu_Some:
  assumes "dp_relu d bnds it (Some p) = (d', p')"
  shows "p' \<noteq> None"
proof -
  from assms have "p' = snd (relu_relaxation bnds it (Some p))"
    using dp_relu_snd[of d bnds it "Some p"] by simp
  then show ?thesis by (simp add: relu_relaxation_def relu_entries_def Let_def)
qed

lemma backprop_relu_again:
  assumes "backprop_dp (Layer (ReLU deepz_lambda output_dim) b) d it ul = Inr (l', d')"
  shows "backprop_dp l' d it ul = Inr (l', d')"
proof -
  from assms obtain bnds where b: "b = Some bnds"
    by (cases b) auto
  show ?thesis
  proof (cases ul)
    case False
    obtain d0 p0 where r: "dp_relu d bnds it None = (d0, p0)"
      by (cases "dp_relu d bnds it None")
    from assms b False r have "l' = Layer (ReLU deepz_lambda output_dim) b" "d' = d0"
      by (simp_all add: Let_def)
    with b False r show ?thesis by (simp add: Let_def)
  next
    case True
    define dl1 where "dl1 = (if deepz_lambda = None then Some (map (\<lambda>_. - 1) (fst bnds))
                             else deepz_lambda)"
    obtain q1 where q1: "dl1 = Some q1"
      by (cases deepz_lambda) (auto simp: dl1_def)
    obtain d0 p0 where r: "dp_relu d bnds it dl1 = (d0, p0)"
      by (cases "dp_relu d bnds it dl1")
    from assms b True r have l': "l' = Layer (ReLU p0 output_dim) b" and d': "d' = d0"
      by (simp_all add: Let_def dl1_def)
    from dp_relu_Some[OF r[unfolded q1]] obtain q where q: "p0 = Some q" by auto
    from dp_relu_again[OF r] have "dp_relu d bnds it (Some q) = (d0, Some q)"
      by (simp add: q)
    then show ?thesis
      unfolding l' d' b q using True by (simp add: Let_def)
  qed
qed

lemma backprop_again:
  "backprop_dp l d it ul = Inr (l', d') \<Longrightarrow> backprop_dp l' d it ul = Inr (l', d')"
  "backprop_layers ls d it ul = Inr (ls', d') \<Longrightarrow> backprop_layers ls' d it ul = Inr (ls', d')"
proof (induction l d it ul and ls d it ul arbitrary: l' d' and ls' d'
    rule: backprop_dp_backprop_layers.induct)
  case (1 ls b d it use_lambda)
  from 1(2) obtain ls0 where a: "backprop_layers ls d it use_lambda = Inr (ls0, d')"
    and l': "l' = Layer (Sequential ls0) b"
    by (auto split: sum.splits)
  from 1(1)[OF a] l' show ?case by simp
next
  case (2 weight bias b d it use_lambda)
  then show ?case by auto
next
  case (3 input_size b d it use_lambda)
  then show ?case by auto
next
  case (4 mean sigma b d it use_lambda)
  then show ?case by auto
next
  case (5 deepz_lambda output_dim b d it use_lambda)
  then show ?case by (rule backprop_relu_again)
next
  case (6 preconv_wh kernel_wh fwd conv_transpose2d bias stride padding dilation b d it
      use_lambda)
  then show ?case by (auto split: sum.splits)
next
  case (7 hw b d it use_lambda)
  then show ?case by (auto split: option.splits)
next
  case (8 preconv_wh kernel_size stride padding fwd conv_transpose2d b d it use_lambda)
  then show ?case by (auto split: sum.splits)
next
  case (9 fwd interpolate b d it use_lambda)
  then show ?case by auto
next
  case (10 out_rank training current_mean current_var running_mean running_var weight bias
      bn_eps b d it use_lambda)
  then show ?case by (auto simp: Let_def split: sum.splits)
next
  case (11 bias b d it use_lambda)
  then show ?case by auto
next
  case (12 scale b d it use_lambda)
  then show ?case by auto
next
  case (13 residual downsample relu_final b d it use_lambda)
  then show ?case by simp
next
  case (14 fwd b d it use_lambda)
  then show ?case by simp
next
  case (15 d it use_lambda)
  then show ?case by simp
next
  case (16 l ls d it use_lambda)
  from 16(3) obtain ls0 d0 l0 where
    a: "backprop_layers ls d it use_lambda = Inr (ls0, d0)"
    and b: "backprop_dp l d0 it use_lambda = Inr (l0, d')"
    and c: "ls' = l0 # ls0"
    by (auto split: sum.splits)
  from 16(1)[OF a] 16(2)[OF a refl b] c show ?case by simp
qed

lemma backward_loop_Suc:
  "backward_loop net (Suc j) d it ul ui ai acc =
     (if j \<ge> length net then Inl IndexError
      else case backprop_dp (net ! j) d it ul of
             Inl e \<Rightarrow> Inl e
           | Inr (layer, d') \<Rightarrow>
               (case loop_acc j layer d' ui ai acc of
                  Inl e \<Rightarrow> Inl e
                | Inr acc' \<Rightarrow> backward_loop (net[j := layer]) j d' it ul ui ai acc'))"
  by (auto simp: loop_acc_def split: sum.splits)

lemma backward_loop_SucE:
  assumes "backward_loop net (Suc j) d it ul ui ai acc = Inr (net', r)"
  obtains layer d' acc' where "j < length net"
    and "backprop_dp (net ! j) d it ul = Inr (layer, d')"
    and "loop_acc j layer d' ui ai acc = Inr acc'"
    and "backward_loop (net[j := layer]) j d' it ul ui ai acc' = Inr (net', r)"
  using assms unfolding backward_loop_Suc
  by (auto split: if_splits sum.splits)

lemma backward_loop_above:
  assumes "backward_loop net n d it ul ui ai acc = Inr (net', r)" and "n \<le> M"
  shows "backward_loop (net[M := X]) n d it ul ui ai acc = Inr (net'[M := X], r)"
  using assms
proof (induction n arbitrary: net d acc)
  case 0
  then show ?case by simp
next
  case (Suc j)
  from Suc.prems(1) obtain layer d' acc' where
    j: "j < length net"
    and bp: "backprop_dp (net ! j) d it ul = Inr (layer, d')"
    and la: "loop_acc j layer d' ui ai acc = Inr acc'"
    and r: "backward_loop (net[j := layer]) j d' it ul ui ai acc' = Inr (net', r)"
    by (rule backward_loop_SucE)
  from Suc.prems(2) have jM: "j \<noteq> M" "j \<le> M" by simp_all
  have sw: "net[M := X, j := layer] = net[j := layer, M := X]"
    using jM by (simp add: list_update_swap)
  from Suc.IH[OF r jM(2)] have
    "backward_loop (net[j := layer, M := X]) j d' it ul ui ai acc' = Inr (net'[M := X], r)" .
  with j jM bp la sw show ?case
    unfolding backward_loop_Suc by simp
qed

lemma backward_loop_again:
  assumes "backward_loop net n d it ul ui ai acc = Inr (net', r)"
  shows "backward_loop net' n d it ul ui ai acc = Inr (net', r)"
  using assms
proof (induction n arbitrary: net d acc)
  case 0
  then show ?case by simp
next
  case (Suc j)
  from Suc.prems(1) obtain layer d' acc' where
    j: "j < length net"
    and bp: "backprop_dp (net ! j) d it ul = Inr (layer, d')"
    and la: "loop_acc j layer d' ui ai acc = Inr acc'"
    and r: "backward_loop (net[j := layer]) j d' it ul ui ai acc' = Inr (net', r)"
    by (rule backward_loop_SucE)
  from backward_loop_frame[OF r] j have
    f: "length net' = length net" "net' ! j = layer"
    by auto
  have id: "net'[j := layer] = net'"
    using list_update_id[of net' j] f by simp
  have bp': "backprop_dp (net' ! j) d it ul = Inr (layer, d')"
    using backprop_again(1)[OF bp] f by simp
  from Suc.IH[OF r] have
    "backward_loop net' j d' it ul ui ai acc' = Inr (net', r)" .
  with j f bp' la id show ?case
    unfolding backward_loop_Suc by simp
qed

lemma computeE:
  assumes "compute_dp_relu_bounds s M ai it ul rb ui = Inr s'" and "M > 0"
  obtains s1 where "bound_previous s M 0 True ai it ul rb ui = Inr s1"
    and "bound_last_layer s1 M ai it ul ui = Inr s'"
  using assms by (subst (asm) compute_dp_relu_bounds.simps) (auto split: sum.splits)

lemma compute_zero:
  "compute_dp_relu_bounds s 0 ai it ul rb ui =
     (if layers s = [] then Inl IndexError
      else Inr (s\<lparr>layers := (layers s)[0 := update_bounds (layers s ! 0) (concretize ai)]\<rparr>))"
  by (subst compute_dp_relu_bounds.simps) simp

lemma same_kinds_memo_right [simp]:
  "same_kinds s' (s\<lparr>already_bounded_layers := m\<rparr>) = same_kinds s' s"
  by (simp add: same_kinds_def)

lemma covered_zero [simp]: "covered s 0"
  by (simp add: covered_def)

lemma same_kinds_is_ReLU:
  "same_kinds s' s \<Longrightarrow> j < length (layers s) \<Longrightarrow> is_ReLU (layers s' ! j) = is_ReLU (layers s ! j)"
  by (simp add: same_kinds_def same_kind_def)

lemma compute_substitutions:
  assumes "compute_dp_relu_bounds s M ai it ul rb ui = Inr s'"
  shows "\<exists>new. substitutions s' = substitutions s @ new \<and> distinct new
           \<and> (\<forall>j\<in>set new. j \<le> M \<and> is_ReLU (layers s ! j))
           \<and> (\<not> is_ReLU (layers s ! M) \<or> M = 0 \<longrightarrow> set new \<subseteq> {..<M})"
proof (cases "M = 0")
  case True
  with assms have "substitutions s' = substitutions s @ []"
    by (auto simp: compute_zero split: if_splits)
  then show ?thesis using True by auto
next
  case False
  with assms obtain s1 where
    p: "bound_previous s M 0 True ai it ul rb ui = Inr s1"
    and l: "bound_last_layer s1 M ai it ul ui = Inr s'"
    by (auto elim: computeE)
  from bound_previous_effect[OF covered_zero p] obtain new where
    n: "same_kinds s1 s" "substitutions s1 = substitutions s @ new" "distinct new"
      "set new \<subseteq> {0..<M}" "\<forall>j\<in>set new. is_ReLU (layers s ! j)"
    by auto
  note e = bound_last_layer_effect[OF l]
  from e(7) n(1) have M: "M < length (layers s)"
    by (simp add: same_kinds_def)
  have r: "is_ReLU (layers s1 ! M) = is_ReLU (layers s ! M)"
    using same_kinds_is_ReLU[OF n(1) M] .
  let ?new = "new @ (if is_ReLU (layers s ! M) then [M] else [])"
  have "substitutions s' = substitutions s @ ?new"
    using e(5) n(2) r by simp
  moreover have "distinct ?new"
    using n(3,4) by auto
  moreover have "\<forall>j\<in>set ?new. j \<le> M \<and> is_ReLU (layers s ! j)"
    using n(4,5) by auto
  moreover have "\<not> is_ReLU (layers s ! M) \<or> M = 0 \<longrightarrow> set ?new \<subseteq> {..<M}"
    using n(4) False by auto
  ultimately show ?thesis by blast
qed

lemma update_bounds_twice [simp]: "update_bounds (update_bounds l b) b = update_bounds l b"
  by (simp add: update_bounds_def)

lemma compute_populated:
  assumes "populated s M" and "compute_dp_relu_bounds s M ai it ul False ui = Inr s'"
  shows "substitutions s' =
           substitutions s @ (if M > 0 \<and> is_ReLU (layers s ! M) then [M] else [])"
    and "\<forall>j<length (layers s). j \<noteq> M \<longrightarrow> bounds (layers s' ! j) = bounds (layers s ! j)"
    and "\<not> is_ReLU (layers s ! M) \<longrightarrow> M > 0 \<longrightarrow> layers s' = layers s"
    and "same_kinds s' s"
proof -
  have "substitutions s' =
           substitutions s @ (if M > 0 \<and> is_ReLU (layers s ! M) then [M] else [])
      \<and> (\<forall>j<length (layers s). j \<noteq> M \<longrightarrow> bounds (layers s' ! j) = bounds (layers s ! j))
      \<and> (\<not> is_ReLU (layers s ! M) \<longrightarrow> M > 0 \<longrightarrow> layers s' = layers s)
      \<and> same_kinds s' s"
  proof (cases "M = 0")
    case True
    with assms(2) have ne: "layers s \<noteq> []"
      and s': "s' = s\<lparr>layers := (layers s)[0 := update_bounds (layers s ! 0) (concretize ai)]\<rparr>"
      by (auto simp: compute_zero split: if_splits)
    have "same_kind ((layers s)[0 := update_bounds (layers s ! 0) (concretize ai)] ! j)
            (layers s ! j)" if "j < length (layers s)" for j
      using that
      by (cases j)
         (simp_all add: same_kind_def update_bounds_def is_ReLU_def relu_output_dim_def)
    with True s' show ?thesis by (simp add: same_kinds_def)
  next
    case False
    with assms(2) obtain s1 where
      p: "bound_previous s M 0 True ai it ul False ui = Inr s1"
      and l: "bound_last_layer s1 M ai it ul ui = Inr s'"
      by (auto elim: computeE)
    from bound_previous_populated[OF assms(1), of 0 True ai it ul ui] p obtain m where
      s1: "s1 = s\<lparr>already_bounded_layers := already_bounded_layers s @ m\<rparr>"
      by auto
    note e = bound_last_layer_effect[OF l]
    from e s1 False show ?thesis by auto
  qed
  then show "substitutions s' =
           substitutions s @ (if M > 0 \<and> is_ReLU (layers s ! M) then [M] else [])"
    and "\<forall>j<length (layers s). j \<noteq> M \<longrightarrow> bounds (layers s' ! j) = bounds (layers s ! j)"
    and "\<not> is_ReLU (layers s ! M) \<longrightarrow> M > 0 \<longrightarrow> layers s' = layers s"
    and "same_kinds s' s"
    by auto
qed

lemma is_ReLU_update_bounds [simp]: "is_ReLU (update_bounds l b) = is_ReLU l"
  by (simp add: update_bounds_def is_ReLU_def)

lemma relu_output_dim_update_bounds [simp]:
  "relu_output_dim (update_bounds l b) = relu_output_dim l"
  by (simp add: update_bounds_def relu_output_dim_def)

lemma bound_last_layer_ReLU:
  assumes "M < length (layers s)" and "is_ReLU (layers s ! M)"
    and "backward_loop (layers s) M (seed (eye (prod_list (relu_output_dim (layers s ! M)))))
           it ul ui (Some ai) None = Inr (net', Some b)"
  shows "bound_last_layer s M ai it ul ui
           = Inr (s\<lparr>layers := net'[M := update_bounds (net' ! M) b],
                    substitutions := substitutions s @ [M]\<rparr>)"
  using assms by (simp add: bound_last_layer_def backward_deeppoly_def Let_def)

lemma bound_last_layer_ReLU_E:
  assumes "bound_last_layer s M ai it ul ui = Inr s'" and "is_ReLU (layers s ! M)"
  obtains net' b where
    "backward_loop (layers s) M (seed (eye (prod_list (relu_output_dim (layers s ! M)))))
           it ul ui (Some ai) None = Inr (net', Some b)"
    and "s' = s\<lparr>layers := net'[M := update_bounds (net' ! M) b],
                  substitutions := substitutions s @ [M]\<rparr>"
    and "M < length (layers s)"
  using assms
  by (auto simp: bound_last_layer_def backward_deeppoly_def Let_def
      split: if_splits sum.splits option.splits)

lemma bounds_update_bounds [simp]: "bounds (update_bounds l b) = Some b"
  by (simp add: update_bounds_def)

lemma covered_mono: "covered s i \<Longrightarrow> j \<le> i \<Longrightarrow> covered s j"
  by (auto simp: covered_def)

lemma bound_last_layer_cache:
  assumes "bound_last_layer s M ai it ul ui = Inr s'" and "is_ReLU (layers s ! M)"
  shows "\<exists>net' b. backward_deeppoly (layers s) (int M - 1)
             (seed (eye (prod_list (relu_output_dim (layers s ! M))))) it ul ui (Some ai)
           = Inr (net', Some b) \<and> bounds (layers s' ! M) = Some b"
proof -
  from bound_last_layer_ReLU_E[OF assms] obtain net' b where
    bl: "backward_loop (layers s) M (seed (eye (prod_list (relu_output_dim (layers s ! M)))))
           it ul ui (Some ai) None = Inr (net', Some b)"
    and s': "s' = s\<lparr>layers := net'[M := update_bounds (net' ! M) b],
                  substitutions := substitutions s @ [M]\<rparr>"
    and M: "M < length (layers s)"
    by blast
  from backward_loop_frame[OF bl] have "length net' = length (layers s)" by simp
  with s' M have "bounds (layers s' ! M) = Some b" by simp
  moreover from bl have "backward_deeppoly (layers s) (int M - 1)
             (seed (eye (prod_list (relu_output_dim (layers s ! M))))) it ul ui (Some ai)
           = Inr (net', Some b)"
    by (simp add: backward_deeppoly_def)
  ultimately show ?thesis by blast
qed

lemma compute_covered_bounds:
  assumes "covered s i" and "compute_dp_relu_bounds s i ai it ul rb ui = Inr s1"
  shows "\<forall>j<length (layers s). j \<noteq> i \<longrightarrow> bounds (layers s1 ! j) = bounds (layers s ! j)"
    and "i = 0 \<or> is_ReLU (layers s ! i) \<longrightarrow> bounds (layers s1 ! i) \<noteq> None"
proof -
  have "(\<forall>j<length (layers s). j \<noteq> i \<longrightarrow> bounds (layers s1 ! j) = bounds (layers s ! j))
      \<and> (i = 0 \<or> is_ReLU (layers s ! i) \<longrightarrow> bounds (layers s1 ! i) \<noteq> None)"
  proof (cases "i = 0")
    case True
    with assms(2) have ne: "layers s \<noteq> []"
      and s1: "s1 = s\<lparr>layers := (layers s)[0 := update_bounds (layers s ! 0) (concretize ai)]\<rparr>"
      by (auto simp: compute_zero split: if_splits)
    from ne have "0 < length (layers s)" by simp
    with s1 True show ?thesis by simp
  next
    case False
    with assms have l: "bound_last_layer s i ai it ul ui = Inr s1"
      by (simp add: compute_dp_relu_bounds.simps bound_previous_covered)
    from bound_last_layer_effect(3)[OF l] bound_last_layer_cache[OF l] False
    show ?thesis by auto
  qed
  then show "\<forall>j<length (layers s). j \<noteq> i \<longrightarrow> bounds (layers s1 ! j) = bounds (layers s ! j)"
    and "i = 0 \<or> is_ReLU (layers s ! i) \<longrightarrow> bounds (layers s1 ! i) \<noteq> None"
    by auto
qed

lemma bound_previous_bounds:
  assumes "covered s i" and "bound_previous s M i f ai it ul rb ui = Inr s'"
  shows "covered s' M
       \<and> (\<forall>j<length (layers s). j < i \<longrightarrow> bounds (layers s' ! j) = bounds (layers s ! j))
       \<and> (\<forall>j<M. i \<le> j \<and> j < length (layers s) \<and> is_ReLU (layers s ! j)
              \<and> j \<notin> set (already_bounded_layers s) \<and> bounds (layers s ! j) = None
            \<longrightarrow> bounds (layers s' ! j) \<noteq> None \<and> (0 < j \<longrightarrow> j \<in> set (substitutions s')))"
  using assms
proof (induction "M - i" arbitrary: s i f)
  case 0
  then have s': "s' = s" and "M \<le> i"
    by (subst (asm) bound_previous.simps, simp)+
  with covered_mono[OF "0.prems"(1)] show ?case by auto
next
  case (Suc k)
  then have i: "i < M" by simp
  have step: "k = M - Suc i" using Suc(2) by simp
  show ?case
  proof (cases "i \<ge> length (layers s)")
    case True
    with Suc.prems(2) have s': "s' = s"
      by (subst (asm) bound_previous.simps) simp
    have "covered s M"
      using Suc.prems(1) True by (auto simp: covered_def)
    with s' True show ?thesis by auto
  next
    case len: False
    show ?thesis
    proof (cases "is_ReLU (layers s ! i) \<and> i \<notin> set (already_bounded_layers s)")
      case False
      with Suc.prems(2) i len have
        r: "bound_previous s M (Suc i) f ai it ul rb ui = Inr s'"
        by (subst (asm) bound_previous.simps) (simp split: if_splits)
      have "covered s (Suc i)"
        using Suc.prems(1) False by (auto simp: covered_def less_Suc_eq)
      from Suc(1)[OF step this r] have
        ih: "covered s' M"
          "\<forall>j<length (layers s). j < Suc i \<longrightarrow> bounds (layers s' ! j) = bounds (layers s ! j)"
          "\<forall>j<M. Suc i \<le> j \<and> j < length (layers s) \<and> is_ReLU (layers s ! j)
              \<and> j \<notin> set (already_bounded_layers s) \<and> bounds (layers s ! j) = None
            \<longrightarrow> bounds (layers s' ! j) \<noteq> None \<and> (0 < j \<longrightarrow> j \<in> set (substitutions s'))"
        by auto
      have c: "bounds (layers s' ! j) \<noteq> None \<and> (0 < j \<longrightarrow> j \<in> set (substitutions s'))"
        if "j < M" "i \<le> j" "j < length (layers s)" "is_ReLU (layers s ! j)"
          "j \<notin> set (already_bounded_layers s)" "bounds (layers s ! j) = None" for j
      proof -
        from that False have "j \<noteq> i" by auto
        with that have "Suc i \<le> j" by simp
        with ih(3) that show ?thesis by blast
      qed
      from ih(1,2) c show ?thesis by auto
    next
      case True
      define cnd where "cnd \<longleftrightarrow> (bounds (layers s ! i) = None \<or> rb)
              \<and> \<not> (f \<and> bounds (layers s ! i) \<noteq> None)"
      define call where "call =
        (if cnd then compute_dp_relu_bounds s i ai it ul True ui else Inr s)"
      from Suc.prems(2) i len True obtain s1 where
        c: "call = Inr s1"
        and r: "bound_previous (s1\<lparr>already_bounded_layers := already_bounded_layers s1 @ [i]\<rparr>)
                  M (Suc i) False ai it ul rb ui = Inr s'"
        unfolding call_def cnd_def
        by (subst (asm) bound_previous.simps) (auto split: sum.splits if_splits)
      have s1: "already_bounded_layers s1 = already_bounded_layers s \<and> same_kinds s1 s
          \<and> (\<forall>j<length (layers s). j \<noteq> i \<longrightarrow> bounds (layers s1 ! j) = bounds (layers s ! j))
          \<and> (bounds (layers s ! i) = None \<longrightarrow>
                bounds (layers s1 ! i) \<noteq> None \<and> (0 < i \<longrightarrow> i \<in> set (substitutions s1)))"
      proof (cases cnd)
        case cT: True
        with c have cc: "compute_dp_relu_bounds s i ai it ul True ui = Inr s1"
          by (simp add: call_def)
        from compute_covered[OF Suc.prems(1) cc] compute_covered_bounds[OF Suc.prems(1) cc] True
        show ?thesis by auto
      next
        case cF: False
        with c have "s1 = s" by (simp add: call_def)
        moreover from cF have "bounds (layers s ! i) \<noteq> None" by (auto simp: cnd_def)
        ultimately show ?thesis by simp
      qed
      let ?s2 = "s1\<lparr>already_bounded_layers := already_bounded_layers s1 @ [i]\<rparr>"
      have len1: "length (layers s1) = length (layers s)"
        using s1 by (simp add: same_kinds_def)
      have relu1: "is_ReLU (layers s1 ! j) = is_ReLU (layers s ! j)" if "j < length (layers s)" for j
        using s1 that same_kinds_is_ReLU by blast
      have cov: "covered ?s2 (Suc i)"
        using Suc.prems(1) s1
        by (auto simp: covered_def less_Suc_eq same_kinds_def same_kind_def)
      from bound_previous_effect[OF cov r] obtain new where
        sub: "substitutions s' = substitutions s1 @ new" by auto
      from Suc(1)[OF step cov r] have
        ih: "covered s' M"
          "\<forall>j<length (layers s). j < Suc i \<longrightarrow> bounds (layers s' ! j) = bounds (layers s1 ! j)"
          "\<forall>j<M. Suc i \<le> j \<and> j < length (layers s) \<and> is_ReLU (layers s1 ! j)
              \<and> j \<notin> set (already_bounded_layers s1 @ [i]) \<and> bounds (layers s1 ! j) = None
            \<longrightarrow> bounds (layers s' ! j) \<noteq> None \<and> (0 < j \<longrightarrow> j \<in> set (substitutions s'))"
        using len1 by auto
      have b: "bounds (layers s' ! j) = bounds (layers s ! j)"
        if "j < length (layers s)" "j < i" for j
        using that ih(2) s1 by auto
      have c: "bounds (layers s' ! j) \<noteq> None \<and> (0 < j \<longrightarrow> j \<in> set (substitutions s'))"
        if j: "j < M" "i \<le> j" "j < length (layers s)" "is_ReLU (layers s ! j)"
          "j \<notin> set (already_bounded_layers s)" "bounds (layers s ! j) = None" for j
      proof (cases "j = i")
        case True
        with j s1 have "bounds (layers s1 ! i) \<noteq> None" "0 < i \<longrightarrow> i \<in> set (substitutions s1)"
          by auto
        moreover have "bounds (layers s' ! i) = bounds (layers s1 ! i)"
          using ih(2) len by simp
        ultimately show ?thesis using True sub by auto
      next
        case False
        with j have "Suc i \<le> j" by simp
        moreover have "is_ReLU (layers s1 ! j)" using relu1 j by simp
        moreover have "j \<notin> set (already_bounded_layers s1 @ [i])" using s1 j False by simp
        moreover have "bounds (layers s1 ! j) = None" using s1 j False by simp
        ultimately show ?thesis using ih(3) j by blast
      qed
      from ih(1) b c show ?thesis by auto
    qed
  qed
qed

lemma compute_repeat:
  assumes "populated s M" and "compute_dp_relu_bounds s M ai it ul False ui = Inr s'"
  shows "\<exists>s''. compute_dp_relu_bounds (s'\<lparr>already_bounded_layers := m\<rparr>) M ai it ul False ui
                 = Inr s'' \<and> layers s'' = layers s'"
proof (cases "M = 0")
  case True
  with assms(2) have ne: "layers s \<noteq> []"
    and s': "s' = s\<lparr>layers := (layers s)[0 := update_bounds (layers s ! 0) (concretize ai)]\<rparr>"
    by (auto simp: compute_zero split: if_splits)
  from ne have "0 < length (layers s)" by simp
  with True s' ne show ?thesis
    by (simp add: compute_zero)
next
  case False
  with assms(2) obtain s1 where
    p: "bound_previous s M 0 True ai it ul False ui = Inr s1"
    and l: "bound_last_layer s1 M ai it ul ui = Inr s'"
    by (auto elim: computeE)
  from bound_previous_populated[OF assms(1), of 0 True ai it ul ui] p obtain m1 where
    s1: "s1 = s\<lparr>already_bounded_layers := already_bounded_layers s @ m1\<rparr>"
    by auto
  note cp = compute_populated[OF assms]
  let ?sx = "s'\<lparr>already_bounded_layers := m\<rparr>"
  have len: "length (layers s') = length (layers s)"
    using cp(4) by (simp add: same_kinds_def)
  have pop: "populated ?sx M"
    unfolding populated_def
  proof (intro allI impI)
    fix j assume j: "j < M" "j < length (layers ?sx)" "is_ReLU (layers ?sx ! j)"
    then have jl: "j < length (layers s)" using len by simp
    from j same_kinds_is_ReLU[OF cp(4) jl] have "is_ReLU (layers s ! j)" by simp
    with assms(1) j(1) jl have "bounds (layers s ! j) \<noteq> None"
      by (simp add: populated_def)
    moreover from cp(2) jl j(1) have "bounds (layers s' ! j) = bounds (layers s ! j)"
      by simp
    ultimately show "bounds (layers ?sx ! j) \<noteq> None" by simp
  qed
  from bound_previous_populated[OF pop, of 0 True ai it ul ui] obtain m2 where
    p2: "bound_previous ?sx M 0 True ai it ul False ui
           = Inr (?sx\<lparr>already_bounded_layers := already_bounded_layers ?sx @ m2\<rparr>)"
    by auto
  let ?s2 = "?sx\<lparr>already_bounded_layers := already_bounded_layers ?sx @ m2\<rparr>"
  have c2: "compute_dp_relu_bounds ?sx M ai it ul False ui = bound_last_layer ?s2 M ai it ul ui"
    using False p2 by (subst compute_dp_relu_bounds.simps) simp
  from bound_last_layer_effect(7)[OF l] s1 have M: "M < length (layers s)" by simp
  show ?thesis
  proof (cases "is_ReLU (layers s ! M)")
    case nr: False
    with cp(3) \<open>M \<noteq> 0\<close> have eq: "layers s' = layers s" by simp
    with nr M have "bound_last_layer ?s2 M ai it ul ui = Inr ?s2"
      by (simp add: bound_last_layer_def)
    with c2 show ?thesis by simp
  next
    case re: True
    then have "is_ReLU (layers s1 ! M)" using s1 by simp
    have "\<exists>net' b. backward_loop (layers s1) M
              (seed (eye (prod_list (relu_output_dim (layers s1 ! M)))))
              it ul ui (Some ai) None = Inr (net', Some b)
          \<and> s' = s1\<lparr>layers := net'[M := update_bounds (net' ! M) b],
                      substitutions := substitutions s1 @ [M]\<rparr>"
      using l \<open>is_ReLU (layers s1 ! M)\<close>
      by (auto simp: bound_last_layer_def backward_deeppoly_def Let_def
          split: if_splits sum.splits option.splits)
    then obtain net' b where
      bl1: "backward_loop (layers s1) M
              (seed (eye (prod_list (relu_output_dim (layers s1 ! M)))))
              it ul ui (Some ai) None = Inr (net', Some b)"
      and s'1: "s' = s1\<lparr>layers := net'[M := update_bounds (net' ! M) b],
                      substitutions := substitutions s1 @ [M]\<rparr>"
      by blast
    have bl: "backward_loop (layers s) M
           (seed (eye (prod_list (relu_output_dim (layers s ! M)))))
           it ul ui (Some ai) None = Inr (net', Some b)"
      using bl1 s1 by simp
    have s': "layers s' = net'[M := update_bounds (net' ! M) b]"
      using s'1 by simp
    let ?X = "update_bounds (net' ! M) b"
    from backward_loop_frame[OF bl] have
      f: "length net' = length (layers s)" "net' ! M = layers s ! M"
      by auto
    from backward_loop_above[OF backward_loop_again[OF bl] le_refl, of ?X] have
      bl2: "backward_loop (net'[M := ?X]) M
              (seed (eye (prod_list (relu_output_dim (layers s ! M)))))
              it ul ui (Some ai) None = Inr (net'[M := ?X], Some b)" .
    have at: "net'[M := ?X] ! M = ?X"
      using f M by simp
    have "bound_last_layer ?s2 M ai it ul ui
           = Inr (?s2\<lparr>layers := (net'[M := ?X])[M := update_bounds (net'[M := ?X] ! M) b],
                    substitutions := substitutions ?s2 @ [M]\<rparr>)"
    proof (rule bound_last_layer_ReLU)
      show "M < length (layers ?s2)" using s' f M by simp
      show "is_ReLU (layers ?s2 ! M)" using s' at f re by simp
      show "backward_loop (layers ?s2) M
              (seed (eye (prod_list (relu_output_dim (layers ?s2 ! M)))))
              it ul ui (Some ai) None = Inr (net'[M := ?X], Some b)"
        using bl2 s' at f by simp
    qed
    with c2 s' at show ?thesis by simp
  qed
qed

lemmas eval_defs = start_def net3_def net4_def box1_def is_ReLU_def relu_output_dim_def
  bound_last_layer_def backward_deeppoly_def update_bounds_def seed_def eye_def
  dp_linear_def ncols_def dp_concretize_def get_neg_pos_comp_def pos_part_def neg_part_def
  vadd_def vmul_def Let_def

lemma net3_run:
  "compute_dp_relu_bounds (start net3) 2 box1 0 False True False
     = Inr \<lparr>layers = [Layer (Linear [[2]] None) None,
                       Layer (ReLU None [1]) (Some ([- 2], [2])),
                       Layer (Linear [[1]] None) None],
            already_bounded_layers = [1], substitutions = [1]\<rparr>"
  by (simp add: compute_dp_relu_bounds.simps bound_previous.simps eval_defs
      numeral_2_eq_2)

lemma net5_run:
  "compute_dp_relu_bounds (start net5) 3 box1 0 False False False
     = Inr \<lparr>layers = [Layer (Linear [[2]] None) None,
                       Layer (ReLU None [1]) (Some ([- 2], [2])),
                       Layer (Linear [[1]] None) None,
                       Layer (ReLU None [1]) (Some ([- 2], [2]))],
            already_bounded_layers = [1], substitutions = [3]\<rparr>"
  by (simp add: compute_dp_relu_bounds.simps bound_previous.simps eval_defs net5_def
      dp_relu_def relu_eval eval_nat_numeral)

lemma net6_run:
  "compute_dp_relu_bounds (start net6) 4 box1 0 False True False
     = Inr \<lparr>layers = [Layer (Linear [[2]] None) None,
                       Layer (ReLU None [1]) (Some ([- 2], [2])),
                       Layer (Linear [[1]] None) None,
                       Layer (ReLU None [1]) (Some ([- 2], [2])),
                       Layer (Linear [[1]] None) None],
            already_bounded_layers = [1, 3], substitutions = [1, 3]\<rparr>"
  by (simp add: compute_dp_relu_bounds.simps bound_previous.simps eval_defs net6_def
      dp_relu_def relu_eval eval_nat_numeral)

lemma net4_run:
  "compute_dp_relu_bounds (start net4) 1 box1 0 False False False
     = Inr \<lparr>layers = [Layer (Linear [[2]] None) None,
                       Layer (ReLU None [1]) (Some ([- 2], [2]))],
            already_bounded_layers = [], substitutions = [1]\<rparr>"
  by (simp add: compute_dp_relu_bounds.simps bound_previous.simps eval_defs)

text \<open>
  C7, as amended. Within one top-level call of \<^verbatim>\<open>compute_dp_relu_bounds\<close> the solver
  starts at most one backward substitution per layer, each at a ReLU layer up to the
  requested index. When every ReLU layer before the requested index has cached bounds and
  \<^verbatim>\<open>recompute_bounds\<close> is \<^verbatim>\<open>False\<close>, a top-level call starts no substitution for any of
  those layers and leaves the cached bounds of every layer but the requested one as they
  are. For the requested layer it does start one substitution when that layer is a ReLU
  at an index above 0, and it replaces the cache of that layer, whatever it held, by the
  bounds that \<^verbatim>\<open>backward_deeppoly\<close> returns for the identity over the output of the layer;
  at index 0 it replaces the cache by the interval of the input region; a requested layer
  at an index above 0 that is not a ReLU keeps its cache. A second such call then returns
  and leaves every layer as the first call left it.
\<close>

theorem solver_memoization:
  "(compute_dp_relu_bounds s M ai it ul rb ui = Inr s' \<longrightarrow>
      (\<exists>new. substitutions s' = substitutions s @ new \<and> distinct new
           \<and> (\<forall>j\<in>set new. j \<le> M \<and> is_ReLU (layers s ! j))))
   \<and> (populated s M \<and> compute_dp_relu_bounds s M ai it ul False ui = Inr s' \<longrightarrow>
        substitutions s' =
          substitutions s @ (if M > 0 \<and> is_ReLU (layers s ! M) then [M] else [])
      \<and> (\<forall>j<length (layers s). j \<noteq> M \<longrightarrow> bounds (layers s' ! j) = bounds (layers s ! j))
      \<and> (M > 0 \<and> is_ReLU (layers s ! M) \<longrightarrow>
           (\<exists>net' b. backward_deeppoly (layers s) (int M - 1)
                        (seed (eye (prod_list (relu_output_dim (layers s ! M)))))
                        it ul ui (Some ai) = Inr (net', Some b)
                    \<and> bounds (layers s' ! M) = Some b))
      \<and> (M > 0 \<and> \<not> is_ReLU (layers s ! M) \<longrightarrow>
           bounds (layers s' ! M) = bounds (layers s ! M))
      \<and> (M = 0 \<longrightarrow> bounds (layers s' ! M) = Some (concretize ai))
      \<and> (\<exists>s''. compute_dp_relu_bounds (s'\<lparr>already_bounded_layers := m\<rparr>) M ai it ul
                   False ui = Inr s''
               \<and> layers s'' = layers s'))"
proof (intro conjI impI)
  assume "compute_dp_relu_bounds s M ai it ul rb ui = Inr s'"
  from compute_substitutions[OF this]
  show "\<exists>new. substitutions s' = substitutions s @ new \<and> distinct new
           \<and> (\<forall>j\<in>set new. j \<le> M \<and> is_ReLU (layers s ! j))"
    by blast
next
  assume a: "populated s M \<and> compute_dp_relu_bounds s M ai it ul False ui = Inr s'"
  then have p: "populated s M"
    and c: "compute_dp_relu_bounds s M ai it ul False ui = Inr s'"
    by auto
  show "substitutions s' =
          substitutions s @ (if M > 0 \<and> is_ReLU (layers s ! M) then [M] else [])"
    by (rule compute_populated(1)[OF p c])
  show "\<forall>j<length (layers s). j \<noteq> M \<longrightarrow> bounds (layers s' ! j) = bounds (layers s ! j)"
    by (rule compute_populated(2)[OF p c])
  show "\<exists>s''. compute_dp_relu_bounds (s'\<lparr>already_bounded_layers := m\<rparr>) M ai it ul
                   False ui = Inr s''
               \<and> layers s'' = layers s'"
    by (rule compute_repeat[OF p c])
next
  assume a: "populated s M \<and> compute_dp_relu_bounds s M ai it ul False ui = Inr s'"
    and r: "M > 0 \<and> is_ReLU (layers s ! M)"
  from a have p: "populated s M"
    and c: "compute_dp_relu_bounds s M ai it ul False ui = Inr s'"
    by auto
  from r c obtain s1 where
    bp: "bound_previous s M 0 True ai it ul False ui = Inr s1"
    and l: "bound_last_layer s1 M ai it ul ui = Inr s'"
    by (auto elim: computeE)
  from bound_previous_populated[OF p, of 0 True ai it ul ui] bp obtain m1 where
    s1: "s1 = s\<lparr>already_bounded_layers := already_bounded_layers s @ m1\<rparr>"
    by auto
  from r s1 have "is_ReLU (layers s1 ! M)" by simp
  from bound_last_layer_cache[OF l this] s1
  show "\<exists>net' b. backward_deeppoly (layers s) (int M - 1)
                        (seed (eye (prod_list (relu_output_dim (layers s ! M)))))
                        it ul ui (Some ai) = Inr (net', Some b)
                    \<and> bounds (layers s' ! M) = Some b"
    by simp
next
  assume a: "populated s M \<and> compute_dp_relu_bounds s M ai it ul False ui = Inr s'"
    and r: "M > 0 \<and> \<not> is_ReLU (layers s ! M)"
  from a have p: "populated s M"
    and c: "compute_dp_relu_bounds s M ai it ul False ui = Inr s'"
    by auto
  from compute_populated(3)[OF p c] r
  show "bounds (layers s' ! M) = bounds (layers s ! M)" by simp
next
  assume a: "populated s M \<and> compute_dp_relu_bounds s M ai it ul False ui = Inr s'"
    and z: "M = 0"
  from a z have "layers s \<noteq> []"
    and s': "s' = s\<lparr>layers := (layers s)[0 := update_bounds (layers s ! 0) (concretize ai)]\<rparr>"
    by (auto simp: compute_zero split: if_splits)
  then show "bounds (layers s' ! M) = Some (concretize ai)"
    using z by simp
qed

theorem solver_memoization_witness:
  "populated (start net5) 3 \<and> is_ReLU (net5 ! 1) \<and> bounds (net5 ! 1) = Some ([- 2], [2])
   \<and> (\<exists>s'. compute_dp_relu_bounds (start net5) 3 box1 0 False False False = Inr s'
          \<and> substitutions s' = [3] \<and> already_bounded_layers s' = [1]
          \<and> bounds (layers s' ! 1) = bounds (net5 ! 1)
          \<and> (\<exists>net'. backward_deeppoly net5 2 (seed (eye 1)) 0 False False (Some box1)
                       = Inr (net', Some ([- 2], [2])))
          \<and> bounds (layers s' ! 3) = Some ([- 2], [2])
          \<and> (\<exists>s''. compute_dp_relu_bounds (s'\<lparr>already_bounded_layers := []\<rparr>) 3 box1 0 False
                       False False = Inr s''
                   \<and> layers s'' = layers s'))
   \<and> (\<exists>s'. compute_dp_relu_bounds (start net6) 4 box1 0 False True False = Inr s'
          \<and> substitutions s' = [1, 3] \<and> distinct (substitutions s')
          \<and> already_bounded_layers s' = [1, 3])"
proof -
  let ?r = "\<lparr>layers = [Layer (Linear [[2]] None) None,
                       Layer (ReLU None [1]) (Some ([- 2], [2])),
                       Layer (Linear [[1]] None) None,
                       Layer (ReLU None [1]) (Some ([- 2], [2]))],
            already_bounded_layers = [1], substitutions = [3 :: nat]\<rparr>"
  let ?q = "\<lparr>layers = [Layer (Linear [[2]] None) None,
                       Layer (ReLU None [1]) (Some ([- 2], [2])),
                       Layer (Linear [[1]] None) None,
                       Layer (ReLU None [1]) (Some ([- 2], [2])),
                       Layer (Linear [[1]] None) None],
            already_bounded_layers = [1, 3], substitutions = [1, 3 :: nat]\<rparr>"
  have p: "populated (start net5) 3"
    by (simp add: populated_def start_def net5_def is_ReLU_def less_Suc_eq eval_nat_numeral)
  have k: "is_ReLU (net5 ! 1)" "bounds (net5 ! 1) = Some ([- 2], [2])"
    "is_ReLU (net5 ! 3)" "relu_output_dim (net5 ! 3) = [1]"
    by (simp_all add: net5_def is_ReLU_def relu_output_dim_def eval_nat_numeral)
  have 5: "substitutions ?r = [3] \<and> bounds (layers ?r ! 1) = bounds (net5 ! 1)
      \<and> (\<exists>net'. backward_deeppoly net5 2 (seed (eye 1)) 0 False False (Some box1)
                       = Inr (net', Some ([- 2], [2])))
      \<and> bounds (layers ?r ! 3) = Some ([- 2], [2])
      \<and> (\<exists>s''. compute_dp_relu_bounds (?r\<lparr>already_bounded_layers := []\<rparr>) 3 box1 0 False
                       False False = Inr s''
                   \<and> layers s'' = layers ?r)"
    using p k net5_run
      solver_memoization [where s = "start net5" and M = 3 and ai = box1 and it = 0
        and ul = False and rb = False and ui = False and m = "[]" and s' = ?r]
    by (simp add: start_def eval_nat_numeral)
  have 6: "substitutions ?q = [1, 3] \<and> distinct (substitutions ?q)"
    using net6_run
      solver_memoization [where s = "start net6" and M = 4 and ai = box1 and it = 0
        and ul = False and rb = True and ui = False and m = "[]" and s' = ?q]
    by (simp add: start_def)
  from p k 5 6 net5_run net6_run show ?thesis by simp
qed

text \<open>
  C7 as stated fails on a linear layer followed by a ReLU layer whose cache holds
  \<open>[-5, 5]\<close>: with \<^verbatim>\<open>recompute_bounds=False\<close> the call starts a substitution for the ReLU
  layer and replaces its cache by \<open>[-2, 2]\<close>, and a second call starts that substitution
  once more.
\<close>

theorem solver_memoization_counterexample:
  "populated (start net4) 1
   \<and> bounds (net4 ! 1) = Some ([- 5], [5])
   \<and> compute_dp_relu_bounds (start net4) 1 box1 0 False False False
       = Inr \<lparr>layers = [Layer (Linear [[2]] None) None,
                         Layer (ReLU None [1]) (Some ([- 2], [2]))],
              already_bounded_layers = [], substitutions = [1]\<rparr>
   \<and> compute_dp_relu_bounds
         \<lparr>layers = [Layer (Linear [[2]] None) None,
                     Layer (ReLU None [1]) (Some ([- 2], [2]))],
          already_bounded_layers = [], substitutions = [1]\<rparr> 1 box1 0 False False False
       = Inr \<lparr>layers = [Layer (Linear [[2]] None) None,
                         Layer (ReLU None [1]) (Some ([- 2], [2]))],
              already_bounded_layers = [], substitutions = [1, 1]\<rparr>"
  by (simp add: compute_dp_relu_bounds.simps bound_previous.simps eval_defs populated_def)

text \<open>
  C8, as amended. When the layer at a requested index above 0 is not a ReLU,
  \<^verbatim>\<open>compute_dp_relu_bounds\<close> starts no backward substitution at that index and leaves that
  layer and every later one as they are, while it still bounds the ReLU layers before it:
  after the call every ReLU layer before the index is in \<^verbatim>\<open>already_bounded_layers\<close>, and
  every such layer that was not there and had no cached bounds has cached bounds, computed
  by a backward substitution when its index is above 0. The call changes nothing at all
  when every earlier ReLU layer is in \<^verbatim>\<open>already_bounded_layers\<close>, and changes no layer
  and starts no substitution when every earlier ReLU layer has cached bounds and
  \<^verbatim>\<open>recompute_bounds\<close> is \<^verbatim>\<open>False\<close>. At index 0 the call writes the interval of the input
  region to the cache of the layer, whatever its kind.
\<close>

theorem non_relu_request:
  "(M > 0 \<and> \<not> is_ReLU (layers s ! M)
      \<and> compute_dp_relu_bounds s M ai it ul rb ui = Inr s' \<longrightarrow>
      (\<forall>j\<ge>M. layers s' ! j = layers s ! j)
    \<and> (\<exists>new. substitutions s' = substitutions s @ new \<and> set new \<subseteq> {..<M})
    \<and> covered s' M
    \<and> (\<forall>j<M. j < length (layers s) \<and> is_ReLU (layers s ! j)
            \<and> j \<notin> set (already_bounded_layers s) \<and> bounds (layers s ! j) = None
          \<longrightarrow> bounds (layers s' ! j) \<noteq> None \<and> (0 < j \<longrightarrow> j \<in> set (substitutions s')))
    \<and> (covered s M \<longrightarrow> s' = s)
    \<and> (\<not> rb \<and> populated s M \<longrightarrow>
          layers s' = layers s \<and> substitutions s' = substitutions s))
   \<and> (layers s \<noteq> [] \<longrightarrow>
        compute_dp_relu_bounds s 0 ai it ul rb ui
          = Inr (s\<lparr>layers := (layers s)[0 := update_bounds (layers s ! 0) (concretize ai)]\<rparr>))"
proof -
  have zero: "layers s \<noteq> [] \<longrightarrow>
        compute_dp_relu_bounds s 0 ai it ul rb ui
          = Inr (s\<lparr>layers := (layers s)[0 := update_bounds (layers s ! 0) (concretize ai)]\<rparr>)"
    by (simp add: compute_zero)
  have pos: "(\<forall>j\<ge>M. layers s' ! j = layers s ! j)
    \<and> (\<exists>new. substitutions s' = substitutions s @ new \<and> set new \<subseteq> {..<M})
    \<and> covered s' M
    \<and> (\<forall>j<M. j < length (layers s) \<and> is_ReLU (layers s ! j)
            \<and> j \<notin> set (already_bounded_layers s) \<and> bounds (layers s ! j) = None
          \<longrightarrow> bounds (layers s' ! j) \<noteq> None \<and> (0 < j \<longrightarrow> j \<in> set (substitutions s')))
    \<and> (covered s M \<longrightarrow> s' = s)
    \<and> (\<not> rb \<and> populated s M \<longrightarrow>
          layers s' = layers s \<and> substitutions s' = substitutions s)"
    if a: "M > 0 \<and> \<not> is_ReLU (layers s ! M)
      \<and> compute_dp_relu_bounds s M ai it ul rb ui = Inr s'"
  proof -
    from a have M: "M > 0" and nr: "\<not> is_ReLU (layers s ! M)"
      and c: "compute_dp_relu_bounds s M ai it ul rb ui = Inr s'"
      by auto
    from computeE[OF c M] obtain s1 where
      p: "bound_previous s M 0 True ai it ul rb ui = Inr s1"
      and l: "bound_last_layer s1 M ai it ul ui = Inr s'"
      by blast
    from bound_previous_effect[OF covered_zero p] have
      k: "same_kinds s1 s" and ab: "\<forall>j\<ge>M. layers s1 ! j = layers s ! j"
      by auto
    from bound_last_layer_effect(7)[OF l] k have Ml: "M < length (layers s)"
      by (simp add: same_kinds_def)
    from nr same_kinds_is_ReLU[OF k Ml] have "\<not> is_ReLU (layers s1 ! M)" by simp
    with bound_last_layer_effect(6)[OF l] have s': "s' = s1" by simp
    have 1: "\<forall>j\<ge>M. layers s' ! j = layers s ! j"
      using ab s' by simp
    have 2: "\<exists>new. substitutions s' = substitutions s @ new \<and> set new \<subseteq> {..<M}"
      using compute_substitutions[OF c] nr by blast
    have 3: "s' = s" if "covered s M"
      using bound_previous_covered[OF that, of 0 True ai it ul rb ui] p s' by simp
    have 4: "layers s' = layers s \<and> substitutions s' = substitutions s"
      if "\<not> rb \<and> populated s M"
    proof -
      from that have rb: "rb = False" and pop: "populated s M" by auto
      from bound_previous_populated[OF pop, of 0 True ai it ul ui] p rb s'
      show ?thesis by auto
    qed
    from bound_previous_bounds[OF covered_zero p] s' have
      5: "covered s' M"
      and 6: "\<forall>j<M. j < length (layers s) \<and> is_ReLU (layers s ! j)
            \<and> j \<notin> set (already_bounded_layers s) \<and> bounds (layers s ! j) = None
          \<longrightarrow> bounds (layers s' ! j) \<noteq> None \<and> (0 < j \<longrightarrow> j \<in> set (substitutions s'))"
      by auto
    from 1 2 3 4 5 6 show ?thesis by blast
  qed
  from zero pos show ?thesis by blast
qed

theorem non_relu_request_witness:
  "\<not> is_ReLU (net3 ! 2) \<and> is_ReLU (net3 ! 1) \<and> bounds (net3 ! 1) = None
   \<and> (\<exists>s'. compute_dp_relu_bounds (start net3) 2 box1 0 False True False = Inr s'
          \<and> layers s' ! 2 = net3 ! 2 \<and> substitutions s' = [1]
          \<and> covered s' 2 \<and> bounds (layers s' ! 1) \<noteq> None \<and> 1 \<in> set (substitutions s'))
   \<and> covered ((start net3)\<lparr>already_bounded_layers := [1]\<rparr>) 2
   \<and> compute_dp_relu_bounds ((start net3)\<lparr>already_bounded_layers := [1]\<rparr>) 2 box1 0
        False True False = Inr ((start net3)\<lparr>already_bounded_layers := [1]\<rparr>)"
proof -
  let ?r = "\<lparr>layers = [Layer (Linear [[2]] None) None,
                       Layer (ReLU None [1]) (Some ([- 2], [2])),
                       Layer (Linear [[1]] None) None],
            already_bounded_layers = [1], substitutions = [1 :: nat]\<rparr>"
  let ?t = "(start net3)\<lparr>already_bounded_layers := [1]\<rparr>"
  have n: "\<not> is_ReLU (net3 ! 2)" "is_ReLU (net3 ! 1)" "bounds (net3 ! 1) = None"
    by (simp_all add: net3_def is_ReLU_def)
  have cov: "covered ?t 2"
    by (simp add: covered_def start_def net3_def is_ReLU_def less_Suc_eq numeral_2_eq_2)
  have t: "compute_dp_relu_bounds ?t 2 box1 0 False True False = Inr ?t"
    by (simp add: compute_dp_relu_bounds.simps bound_previous.simps eval_defs
        numeral_2_eq_2)
  have a: "layers ?r ! 2 = net3 ! 2 \<and> covered ?r 2 \<and> bounds (layers ?r ! 1) \<noteq> None
      \<and> 1 \<in> set (substitutions ?r)"
    using non_relu_request [where s = "start net3" and M = 2 and ai = box1 and it = 0
        and ul = False and rb = True and ui = False and s' = ?r] n net3_run
    by (simp add: start_def net3_def numeral_2_eq_2)
  have b: "compute_dp_relu_bounds ?t 2 box1 0 False True False = Inr ?t"
    using non_relu_request [where s = ?t and M = 2 and ai = box1 and it = 0
        and ul = False and rb = True and ui = False and s' = ?t] n t cov
    by (simp add: start_def)
  from n a b cov net3_run show ?thesis by (simp add: net3_def numeral_2_eq_2)
qed

text \<open>
  C8 as stated fails: a request for the linear layer at index 2 bounds the ReLU layer at
  index 1, whose cache was empty, with one backward substitution; and a request for a
  linear layer at index 0 fills the cache of that layer.
\<close>

theorem non_relu_request_counterexample:
  "\<not> is_ReLU (net3 ! 2) \<and> bounds (net3 ! 1) = None
   \<and> compute_dp_relu_bounds (start net3) 2 box1 0 False True False
     = Inr \<lparr>layers = [Layer (Linear [[2]] None) None,
                       Layer (ReLU None [1]) (Some ([- 2], [2])),
                       Layer (Linear [[1]] None) None],
            already_bounded_layers = [1], substitutions = [1]\<rparr>
   \<and> \<not> is_ReLU (Layer (Linear [[2]] None) None)
   \<and> compute_dp_relu_bounds (start [Layer (Linear [[2]] None) None]) 0 box1 0 False True False
     = Inr \<lparr>layers = [Layer (Linear [[2]] None) (Some ([- 1], [1]))],
            already_bounded_layers = [], substitutions = []\<rparr>"
  by (simp add: compute_dp_relu_bounds.simps bound_previous.simps eval_defs
      numeral_2_eq_2)

end
